theory Spec2Isabelle
  imports Main "HOL-Library.Char_ord" "HOL-Library.List_Lexorder"
begin

section \<open>JavaScript strings\<close>

text \<open>
  The queue module (\<^verbatim>\<open>src/lib/queue.js\<close>) works on JavaScript strings, which are
  sequences of UTF-16 code units. A string is modelled as a \<^typ>\<open>string\<close>; a
  \<^typ>\<open>char\<close> stands for the code unit with the same number, so the model covers the
  strings whose code units are below 256 (ASCII and Latin-1). On that range
  \<^verbatim>\<open>length\<close>, the default \<^verbatim>\<open>sort\<close> order (code unit by code unit), the
  white space class and \<^verbatim>\<open>toLowerCase\<close> are as defined below.
\<close>

definition isWhiteSpace :: "char \<Rightarrow> bool" where
  \<comment> \<open>the class \<^verbatim>\<open>\s\<close> and what \<^verbatim>\<open>trim\<close> removes: TAB, LF, VT, FF, CR, SP, NBSP\<close>
  "isWhiteSpace c = (of_char c \<in> {9, 10, 11, 12, 13, 32, 160 :: nat})"

definition trim :: "string \<Rightarrow> string" where
  "trim s = rev (dropWhile isWhiteSpace (rev (dropWhile isWhiteSpace s)))"

definition startsWith :: "string \<Rightarrow> string \<Rightarrow> bool" where
  "startsWith s p = (take (length p) s = p)"

definition endsWith :: "string \<Rightarrow> string \<Rightarrow> bool" where
  "endsWith s p = (length p \<le> length s \<and> drop (length s - length p) s = p)"

definition lowerChar :: "char \<Rightarrow> char" where
  "lowerChar c =
     (let n = (of_char c :: nat)
      in if (65 \<le> n \<and> n \<le> 90) \<or> (192 \<le> n \<and> n \<le> 222 \<and> n \<noteq> 215)
         then char_of (n + 32) else c)"

definition toLowerCase :: "string \<Rightarrow> string" where
  "toLowerCase s = map lowerChar s"

definition slice :: "string \<Rightarrow> int \<Rightarrow> int \<Rightarrow> string" where
  \<comment> \<open>\<^verbatim>\<open>s.slice(a, b)\<close>: a negative index counts from the end, both are clamped\<close>
  "slice s a b =
     (let n = int (length s);
          from = (if a < 0 then max (n + a) 0 else min a n);
          to = (if b < 0 then max (n + b) 0 else min b n)
      in take (nat (to - from)) (drop (nat from) s))"

definition sliceFrom :: "string \<Rightarrow> int \<Rightarrow> string" where
  \<comment> \<open>\<^verbatim>\<open>s.slice(a)\<close>\<close>
  "sliceFrom s a = slice s a (int (length s))"

fun indexFrom :: "char \<Rightarrow> string \<Rightarrow> int \<Rightarrow> int" where
  "indexFrom c [] i = - 1"
| "indexFrom c (x # xs) i = (if x = c then i else indexFrom c xs (i + 1))"

definition indexOf :: "string \<Rightarrow> char \<Rightarrow> int" where
  \<comment> \<open>\<^verbatim>\<open>s.indexOf(c)\<close>: the first position of c, or -1\<close>
  "indexOf s c = indexFrom c s 0"

definition lastIndexOf :: "string \<Rightarrow> char \<Rightarrow> int" where
  \<comment> \<open>\<^verbatim>\<open>s.lastIndexOf(c)\<close>: the last position of c, or -1\<close>
  "lastIndexOf s c =
     (let k = indexFrom c (rev s) 0 in if k = - 1 then - 1 else int (length s) - 1 - k)"

function decimal :: "nat \<Rightarrow> string" where
  "decimal n =
     (if n < 10 then [char_of (48 + n)]
      else decimal (n div 10) @ [char_of (48 + n mod 10)])"
  by pat_completeness auto
termination
  by (relation "measure (\<lambda>n. n)") auto

declare decimal.simps [simp del]

function stripTags :: "string \<Rightarrow> string" where
  "stripTags [] = []"
| "stripTags (c # cs) =
     (if c = CHR ''<''
         \<and> takeWhile (\<lambda>x. x \<noteq> CHR ''>'') cs \<noteq> []
         \<and> dropWhile (\<lambda>x. x \<noteq> CHR ''>'') cs \<noteq> []
      then CHR '' '' # stripTags (tl (dropWhile (\<lambda>x. x \<noteq> CHR ''>'') cs))
      else c # stripTags cs)"
  by pat_completeness auto
termination
proof (relation "measure length")
  show "wf (measure length)" by simp
next
  fix c :: char and cs :: string
  have "length (tl (dropWhile (\<lambda>x. x \<noteq> CHR ''>'') cs)) \<le> length cs"
    using length_dropWhile_le [of "\<lambda>x. x \<noteq> CHR ''>''" cs] by simp
  then show "(tl (dropWhile (\<lambda>x. x \<noteq> CHR ''>'') cs), c # cs) \<in> measure length"
    by simp
next
  fix c :: char and cs :: string
  show "(cs, c # cs) \<in> measure length" by simp
qed

function collapseWs :: "string \<Rightarrow> string" where
  "collapseWs [] = []"
| "collapseWs (c # cs) =
     (if isWhiteSpace c then CHR '' '' # collapseWs (dropWhile isWhiteSpace cs)
      else c # collapseWs cs)"
  by pat_completeness auto
termination
proof (relation "measure length")
  show "wf (measure length)" by simp
next
  fix c :: char and cs :: string
  show "(dropWhile isWhiteSpace cs, c # cs) \<in> measure length"
    using length_dropWhile_le [of isWhiteSpace cs] by simp
next
  fix c :: char and cs :: string
  show "(cs, c # cs) \<in> measure length" by simp
qed

text \<open>
  \<^verbatim>\<open>slideXml.replace(/<[^>]+>/g, ' ').replace(/\s+/g, ' ').trim()\<close>:
  \<^const>\<open>stripTags\<close> replaces, from left to right, every \<^verbatim>\<open><\<close> that is followed
  by at least one character other than \<^verbatim>\<open>>\<close> and then a \<^verbatim>\<open>>\<close> (with all
  that lies between) by one blank; \<^const>\<open>collapseWs\<close> replaces every maximal run of
  white space by one blank.
\<close>

definition cleanSlide :: "string \<Rightarrow> string" where
  "cleanSlide slideXml = trim (collapseWs (stripTags slideXml))"

section \<open>Jobs, status records and the host\<close>

record job =
  job_id :: string
  savedLocation :: string

text \<open>
  What \<^verbatim>\<open>JSON.parse\<close> returns. A number is kept as its literal; an object is the
  list of its members in insertion order.
\<close>

datatype json =
    JNull
  | JBool bool
  | JNumber string
  | JString string
  | JArray "json list"
  | JObject "(string \<times> json) list"

record job_result =
  summary :: string
  conceptMap :: "json option"

text \<open>
  A status record is a JavaScript object whose fields may be absent; \<open>None\<close> is an
  absent field. In \<^const>\<open>conceptMap\<close>, \<open>None\<close> is \<^verbatim>\<open>null\<close>.
\<close>

record StatusRecord =
  status :: "string option"
  startedAt :: "string option"
  finishedAt :: "string option"
  result :: "job_result option"
  message :: "string option"

definition emptyRecord :: StatusRecord where
  "emptyRecord =
     \<lparr>status = None, startedAt = None, finishedAt = None, result = None, message = None\<rparr>"

text \<open>
  A thrown value, or the reason of a rejected promise. \<open>Thrown (Some m)\<close> is an
  \<^verbatim>\<open>Error\<close> (or any object) whose \<^verbatim>\<open>message\<close> is m, \<open>Thrown None\<close> a value
  without that property (a thrown string, say). \<open>Nullish\<close> is \<^verbatim>\<open>undefined\<close> or
  \<^verbatim>\<open>null\<close>, what a promise rejected without a reason carries: reading a property
  of it raises a \<^verbatim>\<open>TypeError\<close>.
\<close>

datatype thrown = Thrown "string option" | Nullish

type_synonym buffer = "nat list"

text \<open>
  The two \<^verbatim>\<open>cohere.chat\<close> requests of a job. Both use the same model and token
  limit; the message is a fixed prompt around the extracted text, so a request is
  determined by its kind and that text.
\<close>

datatype chat_request = SummaryRequest string | ConceptRequest string

text \<open>
  The world outside the module, as one activation of \<^verbatim>\<open>processJob\<close> sees it: each
  field answers one kind of call, \<open>Inl\<close> for a call that throws or rejects.
  \<^item> \<open>JSZip_loadAsync\<close> gives \<^verbatim>\<open>zip.files\<close>: the entry names in key order, each
    with what \<^verbatim>\<open>.async('text')\<close> yields for it;
  \<^item> \<open>pdfParse\<close>, \<open>extractRawText\<close> and \<open>recognize\<close> give the \<^verbatim>\<open>text\<close> or
    \<^verbatim>\<open>value\<close> field of the result, \<open>None\<close> when it is missing;
  \<^item> \<open>COHERE_API_KEY\<close> is the environment variable, \<open>None\<close> when unset.
\<close>

record host =
  cwd :: string
  path_join :: "string \<Rightarrow> string \<Rightarrow> string"
  path_extname :: "string \<Rightarrow> string"
  readFileSync :: "string \<Rightarrow> thrown + buffer"
  pdfParse :: "buffer \<Rightarrow> thrown + string option"
  JSZip_loadAsync :: "buffer \<Rightarrow> thrown + (string \<times> (thrown + string)) list"
  extractRawText :: "buffer \<Rightarrow> thrown + string option"
  recognize :: "string \<Rightarrow> thrown + string option"
  COHERE_API_KEY :: "string option"
  chat :: "chat_request \<Rightarrow> thrown + string"
  JSON_parse :: "string \<Rightarrow> json option"

section \<open>Text extraction\<close>

definition orEmpty :: "string option \<Rightarrow> string" where
  \<comment> \<open>\<^verbatim>\<open>x || ''\<close>\<close>
  "orEmpty x = (case x of None \<Rightarrow> [] | Some t \<Rightarrow> t)"

definition isSlideName :: "string \<Rightarrow> bool" where
  "isSlideName name = (startsWith name ''ppt/slides/slide'' \<and> endsWith name ''.xml'')"

definition slideFiles :: "(string \<times> (thrown + string)) list \<Rightarrow> string list" where
  \<comment> \<open>\<^verbatim>\<open>Object.keys(zip.files).filter(...).sort()\<close>\<close>
  "slideFiles files = sort (filter isSlideName (map fst files))"

definition slideLine :: "nat \<Rightarrow> string \<Rightarrow> string" where
  \<comment> \<open>the template \<^verbatim>\<open>Slide ${i + 1}: ${cleaned}\n\n\<close>\<close>
  "slideLine i cleaned =
     ''Slide '' @ decimal (i + 1) @ '': '' @ cleaned @ [CHR 0x0A, CHR 0x0A]"

text \<open>
  The loop over \<^verbatim>\<open>slideFiles\<close>, from index i on, with the text built so far. A
  name of \<^verbatim>\<open>slideFiles\<close> is a key of \<^verbatim>\<open>zip.files\<close>; for any other name
  the lookup would be \<^verbatim>\<open>undefined\<close> and the call of \<^verbatim>\<open>async\<close> on it a
  \<^verbatim>\<open>TypeError\<close>.
\<close>

fun slideLoop ::
  "(string \<times> (thrown + string)) list \<Rightarrow> string list \<Rightarrow> nat \<Rightarrow> string \<Rightarrow> thrown + string"
where
  "slideLoop files [] i text = Inr text"
| "slideLoop files (name # rest) i text =
     (case map_of files name of
        None \<Rightarrow> Inl (Thrown (Some ''Cannot read properties of undefined (reading 'async')''))
      | Some (Inl e) \<Rightarrow> Inl e
      | Some (Inr slideXml) \<Rightarrow>
          (let cleaned = cleanSlide slideXml
           in slideLoop files rest (i + 1)
                (if cleaned \<noteq> [] then text @ slideLine i cleaned else text)))"

definition fallbackText :: "string \<Rightarrow> string" where
  "fallbackText extname =
     [CHR 0x0A] @ ''This document is of type '' @ [CHR 0x22] @ extname @ [CHR 0x22] @ ''.''
     @ [CHR 0x0A] @ ''It likely contains educational or structured content.''
     @ [CHR 0x0A, CHR 0x0A]
     @ ''Generate a clear academic-style summary and key concepts based on this context.''
     @ [CHR 0x0A]"

definition extractText :: "host \<Rightarrow> string \<Rightarrow> thrown + string" where
  "extractText h fullPath =
     (let ext = toLowerCase fullPath
      in if endsWith ext ''.pdf'' then
           (case readFileSync h fullPath of
              Inl e \<Rightarrow> Inl e
            | Inr buffer \<Rightarrow>
                (case pdfParse h buffer of
                   Inl e \<Rightarrow> Inl e
                 | Inr text \<Rightarrow> Inr (orEmpty text)))
         else if endsWith ext ''.pptx'' then
           (case readFileSync h fullPath of
              Inl e \<Rightarrow> Inl e
            | Inr buffer \<Rightarrow>
                (case JSZip_loadAsync h buffer of
                   Inl e \<Rightarrow> Inl e
                 | Inr files \<Rightarrow> slideLoop files (slideFiles files) 0 []))
         else if endsWith ext ''.docx'' then
           (case readFileSync h fullPath of
              Inl e \<Rightarrow> Inl e
            | Inr buffer \<Rightarrow>
                (case extractRawText h buffer of
                   Inl e \<Rightarrow> Inl e
                 | Inr v \<Rightarrow> Inr (orEmpty v)))
         else if endsWith ext ''.png'' \<or> endsWith ext ''.jpg'' \<or> endsWith ext ''.jpeg'' then
           (case recognize h fullPath of
              Inl e \<Rightarrow> Inl e
            | Inr text \<Rightarrow> Inr (orEmpty text))
         else Inr (fallbackText (path_extname h fullPath)))"

section \<open>Generation\<close>

definition initCohere :: "host \<Rightarrow> string option \<Rightarrow> thrown + string" where
  \<comment> \<open>the cached client is modelled by its token; the result is the client to use\<close>
  "initCohere h cohereClient =
     (case cohereClient of
        Some c \<Rightarrow> Inr c
      | None \<Rightarrow>
          (case COHERE_API_KEY h of
             None \<Rightarrow> Inl (Thrown (Some ''COHERE_API_KEY is not set in environment''))
           | Some k \<Rightarrow>
               if k = [] then Inl (Thrown (Some ''COHERE_API_KEY is not set in environment''))
               else Inr k))"

definition parseConceptMap :: "host \<Rightarrow> string \<Rightarrow> json option" where
  \<comment> \<open>the inner try/catch: \<open>None\<close> is the \<^verbatim>\<open>null\<close> that conceptMap keeps on a throw\<close>
  "parseConceptMap h text =
     (let raw = trim text;
          start = indexOf raw CHR ''{'';
          end' = lastIndexOf raw CHR ''}''
      in if start = - 1 \<or> end' = - 1 then None
         else JSON_parse h (slice raw start (end' + 1)))"

text \<open>
  The calls to the generation backend that an activation makes, in order.
\<close>

datatype gen_call = InitCohere | Chat chat_request

record attempt =
  outcome :: "thrown + job_result"
  client :: "string option"
  calls :: "gen_call list"

definition generate :: "host \<Rightarrow> string option \<Rightarrow> string \<Rightarrow> attempt" where
  "generate h cohereClient extractedText =
     (case initCohere h cohereClient of
        Inl e \<Rightarrow> \<lparr>outcome = Inl e, client = cohereClient, calls = [InitCohere]\<rparr>
      | Inr cohere \<Rightarrow>
          (case chat h (SummaryRequest extractedText) of
             Inl e \<Rightarrow>
               \<lparr>outcome = Inl e, client = Some cohere,
                calls = [InitCohere, Chat (SummaryRequest extractedText)]\<rparr>
           | Inr summaryText \<Rightarrow>
               (case chat h (ConceptRequest extractedText) of
                  Inl e \<Rightarrow>
                    \<lparr>outcome = Inl e, client = Some cohere,
                     calls = [InitCohere, Chat (SummaryRequest extractedText),
                              Chat (ConceptRequest extractedText)]\<rparr>
                | Inr conceptText \<Rightarrow>
                    \<lparr>outcome = Inr \<lparr>summary = summaryText,
                                     conceptMap = parseConceptMap h conceptText\<rparr>,
                     client = Some cohere,
                     calls = [InitCohere, Chat (SummaryRequest extractedText),
                              Chat (ConceptRequest extractedText)]\<rparr>)))"

definition notEnoughText :: thrown where
  "notEnoughText =
     Thrown (Some ''Not enough readable text found in this file to generate a meaningful summary.'')"

definition resolvePath :: "host \<Rightarrow> job \<Rightarrow> string" where
  \<comment> \<open>\<^verbatim>\<open>relativePath\<close> and \<^verbatim>\<open>fullPath\<close>\<close>
  "resolvePath h j =
     path_join h (cwd h)
       (if startsWith (savedLocation j) ''/'' then sliceFrom (savedLocation j) 1
        else savedLocation j)"

text \<open>
  The try block of \<^verbatim>\<open>processJob\<close>: extraction, the guard, then generation. The
  result says how the block ends (\<open>Inl\<close> the value thrown), the cached client
  afterwards and the generation calls made.
\<close>

definition tryBlock :: "host \<Rightarrow> string option \<Rightarrow> job \<Rightarrow> attempt" where
  "tryBlock h cohereClient j =
     (case extractText h (resolvePath h j) of
        Inl e \<Rightarrow> \<lparr>outcome = Inl e, client = cohereClient, calls = []\<rparr>
      | Inr extractedText \<Rightarrow>
          if extractedText = [] \<or> length (trim extractedText) < 20
          then \<lparr>outcome = Inl notEnoughText, client = cohereClient, calls = []\<rparr>
          else generate h cohereClient extractedText)"

section \<open>The queue and its worker\<close>

text \<open>
  The module's variables \<^verbatim>\<open>statuses\<close>, \<^verbatim>\<open>jobs\<close>, \<^verbatim>\<open>workerRunning\<close> and
  \<^verbatim>\<open>cohereClient\<close>, and two parts of the event loop's state: the activations of
  \<^verbatim>\<open>processJob\<close> that were started and have not reached their finally-block
  (\<open>inFlight\<close>), and the number of pending \<^verbatim>\<open>setTimeout(processNext, 100)\<close>
  callbacks (\<open>timers\<close>). Nothing bounds \<open>inFlight\<close> by construction.

  \<^verbatim>\<open>processNext\<close> calls \<^verbatim>\<open>processJob(job)\<close> and drops the promise, so a
  promise of \<^verbatim>\<open>processJob\<close> that is rejected is an unhandled rejection;
  \<open>unhandledRejections\<close> counts them. What Node does with one depends on its version
  and flags: it may end the process. The model counts and goes on, so the run of a
  process that ends there is a run of the model cut short.
\<close>

record queue =
  statuses :: "string \<Rightarrow> StatusRecord option"
  jobs :: "job list"
  workerRunning :: bool
  cohereClient :: "string option"
  inFlight :: "job list"
  timers :: nat
  unhandledRejections :: nat

definition initial :: queue where
  "initial =
     \<lparr>statuses = Map.empty, jobs = [], workerRunning = False, cohereClient = None,
      inFlight = [], timers = 0, unhandledRejections = 0\<rparr>"

definition existing :: "queue \<Rightarrow> string \<Rightarrow> StatusRecord" where
  \<comment> \<open>\<^verbatim>\<open>statuses[id] || {}\<close>\<close>
  "existing q i = (case statuses q i of None \<Rightarrow> emptyRecord | Some r \<Rightarrow> r)"

definition processNext :: "string \<Rightarrow> queue \<Rightarrow> queue" where
  \<comment> \<open>\<open>now\<close> is what \<^verbatim>\<open>new Date().toISOString()\<close> gives\<close>
  "processNext now q =
     (if workerRunning q then q
      else case jobs q of
          [] \<Rightarrow> q
        | j # rest \<Rightarrow>
            q\<lparr>jobs := rest,
              workerRunning := True,
              statuses := (statuses q)(job_id j \<mapsto>
                (existing q (job_id j))\<lparr>status := Some ''processing'', startedAt := Some now\<rparr>),
              inFlight := inFlight q @ [j]\<rparr>)"

definition enqueue :: "string \<Rightarrow> job \<Rightarrow> queue \<Rightarrow> queue" where
  "enqueue now j q = processNext now (q\<lparr>jobs := jobs q @ [j]\<rparr>)"

definition messageOr :: "thrown \<Rightarrow> string option" where
  \<comment> \<open>\<^verbatim>\<open>err.message || 'Processing failed'\<close>: the empty string is falsy; \<open>None\<close> when
     reading \<^verbatim>\<open>err.message\<close> raises\<close>
  "messageOr err =
     (case err of
        Nullish \<Rightarrow> None
      | Thrown None \<Rightarrow> Some ''Processing failed''
      | Thrown (Some m) \<Rightarrow> Some (if m = [] then ''Processing failed'' else m))"

text \<open>
  \<^verbatim>\<open>processJob\<close> from the start of its try block to the end of its finally-block,
  for an activation of \<open>inFlight\<close>. The host answers its calls; \<open>now\<close> is the clock
  at the status write. Between its awaits an activation touches no variable of the
  module but \<^verbatim>\<open>cohereClient\<close>, which only an activation writes; its reads of
  \<^verbatim>\<open>statuses[id]\<close> and \<^verbatim>\<open>jobs.length\<close> and all its writes happen in its last
  turn, so the activation is one transition, taken when it completes. An activation
  that throws before its first await completes inside \<^verbatim>\<open>processNext\<close>; the model
  has this as the transition that follows the claim at once.

  The catch block builds the error record before it assigns it. When the value
  caught is \<open>Nullish\<close>, reading \<^verbatim>\<open>err.message\<close> raises inside the catch block:
  nothing is written to \<^verbatim>\<open>statuses\<close> (\<open>written\<close> is \<open>None\<close>), the finally-block
  still runs, and the promise of \<^verbatim>\<open>processJob\<close> is rejected.
\<close>

definition processJob :: "host \<Rightarrow> string \<Rightarrow> job \<Rightarrow> queue \<Rightarrow> queue" where
  "processJob h now j q =
     (let a = tryBlock h (cohereClient q) j;
          old = existing q (job_id j);
          written =
            (case outcome a of
               Inr r \<Rightarrow> Some (old\<lparr>status := Some ''done'', finishedAt := Some now,
                                   result := Some r\<rparr>)
             | Inl err \<Rightarrow>
                 (case messageOr err of
                    None \<Rightarrow> None
                  | Some m \<Rightarrow> Some (old\<lparr>status := Some ''error'', message := Some m\<rparr>)))
      in q\<lparr>statuses := (case written of
                          None \<Rightarrow> statuses q
                        | Some new \<Rightarrow> (statuses q)(job_id j \<mapsto> new)),
           cohereClient := client a,
           workerRunning := False,
           timers := (if jobs q \<noteq> [] then timers q + 1 else timers q),
           inFlight := remove1 j (inFlight q),
           unhandledRejections := (case written of
                                     None \<Rightarrow> unhandledRejections q + 1
                                   | Some new \<Rightarrow> unhandledRejections q)\<rparr>)"

text \<open>
  What can happen to the module: a caller enqueues a job, a pending timer fires and
  calls \<^verbatim>\<open>processNext\<close>, or an activation in flight completes. \<^const>\<open>None\<close> is
  an event that cannot happen in the state. Every run of the module is a run of
  these events; the model does not force an activation that throws before its first
  await to complete before the next event, so what holds of all its runs holds of
  the module's, and the example runs below are chosen among those the module makes.
\<close>

datatype event =
    Enqueue job string
  | TimerFires string
  | Completes job host string

fun step :: "queue \<Rightarrow> event \<Rightarrow> queue option" where
  "step q (Enqueue j now) = Some (enqueue now j q)"
| "step q (TimerFires now) =
     (if timers q = 0 then None else Some (processNext now (q\<lparr>timers := timers q - 1\<rparr>)))"
| "step q (Completes j h now) =
     (if j \<in> set (inFlight q) then Some (processJob h now j q) else None)"

fun run :: "queue \<Rightarrow> event list \<Rightarrow> queue option" where
  "run q [] = Some q"
| "run q (e # es) = (case step q e of None \<Rightarrow> None | Some q' \<Rightarrow> run q' es)"

fun submitted :: "event list \<Rightarrow> job list" where
  "submitted [] = []"
| "submitted (Enqueue j now # es) = j # submitted es"
| "submitted (e # es) = submitted es"

fun completed :: "event list \<Rightarrow> job list" where
  "completed [] = []"
| "completed (Completes j h now # es) = j # completed es"
| "completed (e # es) = completed es"

section \<open>A reference model of JSON.parse\<close>

text \<open>
  The module hands the sliced response to the built-in \<^verbatim>\<open>JSON.parse\<close>, which the
  host record carries as \<open>JSON_parse\<close>; what is proved for every host holds whatever
  the built-in does. To run the module on concrete responses, \<open>parseJSON\<close> follows
  the JSON grammar (ECMA-404): white space, the three literals, numbers, strings with
  their escapes, arrays and objects, a repeated key keeping its first position and
  its last value. An escape \<^verbatim>\<open>\uXXXX\<close> of a code unit above 255 denotes a string
  outside the strings modelled here and is not parsed. The first argument of
  \<open>parseValue\<close> bounds the depth of the calls.
\<close>

definition isJsonWs :: "char \<Rightarrow> bool" where
  "isJsonWs c = (of_char c \<in> {9, 10, 13, 32 :: nat})"

definition skipWs :: "string \<Rightarrow> string" where
  "skipWs s = dropWhile isJsonWs s"

definition isDigit :: "char \<Rightarrow> bool" where
  "isDigit c = (48 \<le> (of_char c :: nat) \<and> (of_char c :: nat) \<le> 57)"

definition hexValue :: "char \<Rightarrow> nat option" where
  "hexValue c =
     (let n = (of_char c :: nat)
      in if 48 \<le> n \<and> n \<le> 57 then Some (n - 48)
         else if 65 \<le> n \<and> n \<le> 70 then Some (n - 55)
         else if 97 \<le> n \<and> n \<le> 102 then Some (n - 87)
         else None)"

definition unicodeEscape :: "string \<Rightarrow> char option" where
  "unicodeEscape ds =
     (case map hexValue ds of
        [Some a, Some b, Some c, Some d] \<Rightarrow>
          (if a = 0 \<and> b = 0 then Some (char_of (16 * c + d)) else None)
      | _ \<Rightarrow> None)"

definition simpleEscape :: "char \<Rightarrow> char option" where
  "simpleEscape e =
     (if e = CHR 0x22 then Some (CHR 0x22)
      else if e = CHR 0x5C then Some (CHR 0x5C)
      else if e = CHR ''/'' then Some (CHR ''/'')
      else if e = CHR ''b'' then Some (CHR 0x08)
      else if e = CHR ''f'' then Some (CHR 0x0C)
      else if e = CHR ''n'' then Some (CHR 0x0A)
      else if e = CHR ''r'' then Some (CHR 0x0D)
      else if e = CHR ''t'' then Some (CHR 0x09)
      else None)"

fun parseString :: "string \<Rightarrow> string \<Rightarrow> (string \<times> string) option" where
  "parseString [] acc = None"
| "parseString (c # cs) acc =
     (if c = CHR 0x22 then Some (acc, cs)
      else if c = CHR 0x5C then
        (case cs of
           [] \<Rightarrow> None
         | e # r \<Rightarrow>
             if e = CHR ''u'' then
               (case unicodeEscape (take 4 r) of
                  None \<Rightarrow> None
                | Some u \<Rightarrow> parseString (drop 4 r) (acc @ [u]))
             else
               (case simpleEscape e of
                  None \<Rightarrow> None
                | Some x \<Rightarrow> parseString r (acc @ [x])))
      else if (of_char c :: nat) < 32 then None
      else parseString cs (acc @ [c]))"

definition parseNumber :: "string \<Rightarrow> (json \<times> string) option" where
  "parseNumber s =
     (let sign = takeWhile (\<lambda>c. c = CHR ''-'') (take 1 s);
          s1 = drop (length sign) s;
          whole = (if take 1 s1 = ''0'' then ''0'' else takeWhile isDigit s1);
          s2 = drop (length whole) s1;
          frac = (if take 1 s2 = ''.'' then CHR ''.'' # takeWhile isDigit (drop 1 s2) else []);
          s3 = drop (length frac) s2;
          e = (if take 1 s3 = ''e'' \<or> take 1 s3 = ''E'' then take 1 s3 else []);
          s4 = drop (length e) s3;
          esign = (if e \<noteq> [] \<and> (take 1 s4 = ''+'' \<or> take 1 s4 = ''-'') then take 1 s4 else []);
          s5 = drop (length esign) s4;
          edigits = (if e \<noteq> [] then takeWhile isDigit s5 else []);
          s6 = drop (length edigits) s5
      in if whole = [] \<or> frac = ''.'' \<or> (e \<noteq> [] \<and> edigits = []) then None
         else Some (JNumber (sign @ whole @ frac @ e @ esign @ edigits), s6))"

fun putMember :: "string \<Rightarrow> json \<Rightarrow> (string \<times> json) list \<Rightarrow> (string \<times> json) list" where
  "putMember k v [] = [(k, v)]"
| "putMember k v ((k', v') # ms) =
     (if k' = k then (k, v) # ms else (k', v') # putMember k v ms)"

fun parseValue :: "nat \<Rightarrow> string \<Rightarrow> (json \<times> string) option"
and parseElements :: "nat \<Rightarrow> string \<Rightarrow> json list \<Rightarrow> (json \<times> string) option"
and parseMembers :: "nat \<Rightarrow> string \<Rightarrow> (string \<times> json) list \<Rightarrow> (json \<times> string) option"
where
  "parseValue 0 s = None"
| "parseValue (Suc n) s =
     (case skipWs s of
        [] \<Rightarrow> None
      | c # cs \<Rightarrow>
          if c = CHR ''{'' then
            (case skipWs cs of
               [] \<Rightarrow> None
             | d # r \<Rightarrow> if d = CHR ''}'' then Some (JObject [], r) else parseMembers n cs [])
          else if c = CHR ''['' then
            (case skipWs cs of
               [] \<Rightarrow> None
             | d # r \<Rightarrow> if d = CHR '']'' then Some (JArray [], r) else parseElements n cs [])
          else if c = CHR 0x22 then
            (case parseString cs [] of
               None \<Rightarrow> None
             | Some (str, r) \<Rightarrow> Some (JString str, r))
          else if take 4 (c # cs) = ''true'' then Some (JBool True, drop 4 (c # cs))
          else if take 5 (c # cs) = ''false'' then Some (JBool False, drop 5 (c # cs))
          else if take 4 (c # cs) = ''null'' then Some (JNull, drop 4 (c # cs))
          else parseNumber (c # cs))"
| "parseElements 0 s acc = None"
| "parseElements (Suc n) s acc =
     (case parseValue n s of
        None \<Rightarrow> None
      | Some (v, r) \<Rightarrow>
          (case skipWs r of
             [] \<Rightarrow> None
           | d # r' \<Rightarrow>
               if d = CHR '','' then parseElements n r' (acc @ [v])
               else if d = CHR '']'' then Some (JArray (acc @ [v]), r')
               else None))"
| "parseMembers 0 s acc = None"
| "parseMembers (Suc n) s acc =
     (case skipWs s of
        [] \<Rightarrow> None
      | c # cs \<Rightarrow>
          if c \<noteq> CHR 0x22 then None
          else
            (case parseString cs [] of
               None \<Rightarrow> None
             | Some (k, r) \<Rightarrow>
                 (case skipWs r of
                    [] \<Rightarrow> None
                  | d # r1 \<Rightarrow>
                      if d \<noteq> CHR '':'' then None
                      else
                        (case parseValue n r1 of
                           None \<Rightarrow> None
                         | Some (v, r2) \<Rightarrow>
                             (case skipWs r2 of
                                [] \<Rightarrow> None
                              | x # r3 \<Rightarrow>
                                  if x = CHR '','' then parseMembers n r3 (putMember k v acc)
                                  else if x = CHR ''}'' then Some (JObject (putMember k v acc), r3)
                                  else None)))))"

definition parseJSON :: "string \<Rightarrow> json option" where
  "parseJSON s =
     (case parseValue (2 * length s + 2) s of
        None \<Rightarrow> None
      | Some (v, r) \<Rightarrow> if skipWs r = [] then Some v else None)"

text \<open>
  A host with readable files, an API key and a generation backend that answers; its
  path functions answer as Node's do on the paths used below.
\<close>

definition exampleHost :: host where
  \<open>exampleHost =
     \<lparr>cwd = ''/srv/app'',
      path_join = (\<lambda>a b. a @ ''/'' @ b),
      path_extname = (\<lambda>p. CHR ''.'' # rev (takeWhile (\<lambda>c. c \<noteq> CHR ''.'') (rev p))),
      readFileSync = (\<lambda>p. Inr []),
      pdfParse = (\<lambda>b. Inr (Some ''Photosynthesis converts light energy into chemical energy.'')),
      JSZip_loadAsync = (\<lambda>b. Inr []),
      extractRawText = (\<lambda>b. Inr (Some ''Mitochondria are the site of cellular respiration.'')),
      recognize = (\<lambda>p. Inr (Some ''Too short'')),
      COHERE_API_KEY = Some ''test-key'',
      chat = (\<lambda>r. case r of
                SummaryRequest t \<Rightarrow> Inr ''Overview: energy conversion in cells.''
              | ConceptRequest t \<Rightarrow>
                  Inr ''Sure! {"nodes":[{"id":"A","label":"X"}],"edges":[]} Thanks.''),
      JSON_parse = parseJSON\<rparr>\<close>

text \<open>
  The example host with a PDF parser that rejects without a reason
  (\<^verbatim>\<open>Promise.reject()\<close>): the file is read, the rejection arrives at the await.
\<close>

definition bareRejectHost :: host where
  "bareRejectHost = exampleHost\<lparr>pdfParse := (\<lambda>b. Inl Nullish)\<rparr>"

text \<open>
  A host on which every file read fails and no API key is set.
\<close>

definition offlineHost :: host where
  "offlineHost =
     \<lparr>cwd = ''/srv/app'',
      path_join = (\<lambda>a b. a @ ''/'' @ b),
      path_extname = (\<lambda>p. []),
      readFileSync = (\<lambda>p. Inl (Thrown (Some ''ENOENT: no such file or directory''))),
      pdfParse = (\<lambda>b. Inr None),
      JSZip_loadAsync = (\<lambda>b. Inr []),
      extractRawText = (\<lambda>b. Inr None),
      recognize = (\<lambda>p. Inr None),
      COHERE_API_KEY = None,
      chat = (\<lambda>r. Inl (Thrown None)),
      JSON_parse = (\<lambda>s. None)\<rparr>"

section \<open>Example jobs and states\<close>

definition notesJob :: job where
  "notesJob = \<lparr>job_id = ''a'', savedLocation = ''/uploads/notes.pdf''\<rparr>"

definition deckJob :: job where
  "deckJob = \<lparr>job_id = ''b'', savedLocation = ''/uploads/deck.pptx''\<rparr>"

definition readmeJob :: job where
  "readmeJob = \<lparr>job_id = ''c'', savedLocation = ''/uploads/README.TXT''\<rparr>"

definition retryJob :: job where
  "retryJob = \<lparr>job_id = ''a'', savedLocation = ''/uploads/notes-v2.pdf''\<rparr>"

text \<open>
  The state after \<open>notesJob\<close> and then \<open>deckJob\<close> were enqueued: the first is in
  flight, the second waits.
\<close>

definition busyQueue :: queue where
  "busyQueue =
     \<lparr>statuses = [''a'' \<mapsto> \<lparr>status = Some ''processing'', startedAt = Some ''t1'',
                             finishedAt = None, result = None, message = None\<rparr>],
      jobs = [deckJob], workerRunning = True, cohereClient = None,
      inFlight = [notesJob], timers = 0, unhandledRejections = 0\<rparr>"

text \<open>
  The entries of a presentation archive with ten slides, the fourth without text.
\<close>

definition deckFiles :: "(string \<times> (thrown + string)) list" where
  "deckFiles =
     [(''[Content_Types].xml'', Inr ''<Types/>''),
      (''ppt/slides/slide1.xml'', Inr ''<p:sld><a:t>S1</a:t></p:sld>''),
      (''ppt/slides/slide2.xml'', Inr ''<p:sld><a:t>S2</a:t></p:sld>''),
      (''ppt/slides/slide3.xml'', Inr ''<p:sld><a:t>S3</a:t></p:sld>''),
      (''ppt/slides/slide4.xml'', Inr ''<p:sld>  </p:sld>''),
      (''ppt/slides/slide5.xml'', Inr ''<p:sld><a:t>S5</a:t></p:sld>''),
      (''ppt/slides/slide6.xml'', Inr ''<p:sld><a:t>S6</a:t></p:sld>''),
      (''ppt/slides/slide7.xml'', Inr ''<p:sld><a:t>S7</a:t></p:sld>''),
      (''ppt/slides/slide8.xml'', Inr ''<p:sld><a:t>S8</a:t></p:sld>''),
      (''ppt/slides/slide9.xml'', Inr ''<p:sld><a:t>S9</a:t></p:sld>''),
      (''ppt/slides/slide10.xml'', Inr ''<p:sld><a:t>S10</a:t></p:sld>''),
      (''ppt/slides/_rels/slide1.xml.rels'', Inr ''<Relationships/>'')]"

text \<open>
  What the entry at index \<open>fst p\<close> of \<^verbatim>\<open>slideFiles\<close>, named \<open>snd p\<close>, adds to
  the text: its line when its cleaned text is not empty, nothing otherwise.
\<close>

definition slideText :: "(string \<times> (thrown + string)) list \<Rightarrow> nat \<times> string \<Rightarrow> string" where
  "slideText files p =
     (case map_of files (snd p) of
        Some (Inr slideXml) \<Rightarrow>
          if cleanSlide slideXml \<noteq> [] then slideLine (fst p) (cleanSlide slideXml) else []
      | _ \<Rightarrow> [])"

section \<open>Facts about the string functions\<close>

lemma indexFrom_eq:
  "indexFrom c xs i =
     (if c \<in> set xs then i + int (length (takeWhile (\<lambda>x. x \<noteq> c) xs)) else - 1)"
  by (induction xs arbitrary: i) auto

lemma takeWhile_less: "c \<in> set xs \<Longrightarrow> length (takeWhile (\<lambda>x. x \<noteq> c) xs) < length xs"
  by (induction xs) auto

lemma indexOf_absent: "c \<notin> set s \<Longrightarrow> indexOf s c = - 1"
  by (simp add: indexOf_def indexFrom_eq)

lemma lastIndexOf_absent: "c \<notin> set s \<Longrightarrow> lastIndexOf s c = - 1"
  by (simp add: lastIndexOf_def indexFrom_eq)

lemma indexOf_first:
  assumes "c \<in> set s"
  shows "\<exists>a. indexOf s c = int a \<and> a < length s \<and> s ! a = c \<and> c \<notin> set (take a s)"
proof -
  let ?a = "length (takeWhile (\<lambda>x. x \<noteq> c) s)"
  have lt: "?a < length s" using assms by (rule takeWhile_less)
  have "s ! ?a = c" using nth_length_takeWhile [OF lt] by simp
  moreover have "take ?a s = takeWhile (\<lambda>x. x \<noteq> c) s"
    by (metis append_eq_conv_conj takeWhile_dropWhile_id)
  then have "c \<notin> set (take ?a s)" by (auto dest: set_takeWhileD)
  ultimately show ?thesis using lt assms by (auto simp: indexOf_def indexFrom_eq)
qed

lemma lastIndexOf_last:
  assumes "c \<in> set s"
  shows "\<exists>b. lastIndexOf s c = int b \<and> b < length s \<and> s ! b = c \<and> c \<notin> set (drop (Suc b) s)"
proof -
  from assms have "c \<in> set (rev s)" by simp
  from indexOf_first [OF this] obtain k where
    k: "indexFrom c (rev s) 0 = int k" "k < length s" "rev s ! k = c" "c \<notin> set (take k (rev s))"
    by (auto simp: indexOf_def)
  let ?b = "length s - 1 - k"
  from k(2) have b: "?b < length s" by arith
  from k(2) have kb: "length s - k = Suc ?b" by arith
  have "s ! ?b = c" using k(2,3) by (simp add: rev_nth)
  moreover have "take k (rev s) = rev (drop (Suc ?b) s)"
    unfolding kb [symmetric] by (simp add: take_rev)
  with k(4) have "c \<notin> set (drop (Suc ?b) s)" by simp
  moreover have "lastIndexOf s c = int ?b"
    using k(1,2) by (auto simp: lastIndexOf_def Let_def)
  ultimately show ?thesis using b by blast
qed

lemma slice_nat:
  assumes "a < length s" "b < length s"
  shows "slice s (int a) (int b + 1) = drop a (take (Suc b) s)"
proof -
  have "nat (int b + 1 - int a) = Suc b - a" by arith
  with assms show ?thesis by (simp add: slice_def Let_def drop_take min_def)
qed

lemma set_dropWhile_keeps: "c \<in> set xs \<Longrightarrow> \<not> P c \<Longrightarrow> c \<in> set (dropWhile P xs)"
  by (induction xs) auto

lemma set_trim_subset: "set (trim s) \<subseteq> set s"
  by (auto simp: trim_def dest!: set_dropWhileD)

lemma set_trim_keeps: "c \<in> set s \<Longrightarrow> \<not> isWhiteSpace c \<Longrightarrow> c \<in> set (trim s)"
  by (simp add: trim_def set_dropWhile_keeps)

lemma trim_fallbackText:
  "trim (fallbackText e) =
     ''This document is of type '' @ [CHR 0x22] @ e @ [CHR 0x22] @ ''.''
     @ [CHR 0x0A] @ ''It likely contains educational or structured content.''
     @ [CHR 0x0A, CHR 0x0A]
     @ ''Generate a clear academic-style summary and key concepts based on this context.''"
  by (simp add: fallbackText_def trim_def isWhiteSpace_def)

section \<open>Facts about one activation\<close>

lemma processJob_record:
  "statuses (processJob h now j q) (job_id j) =
     (case outcome (tryBlock h (cohereClient q) j) of
        Inr r \<Rightarrow> Some ((existing q (job_id j))\<lparr>status := Some ''done'', finishedAt := Some now,
                                                result := Some r\<rparr>)
      | Inl err \<Rightarrow>
          (case messageOr err of
             None \<Rightarrow> statuses q (job_id j)
           | Some m \<Rightarrow> Some ((existing q (job_id j))\<lparr>status := Some ''error'',
                                                      message := Some m\<rparr>)))"
  by (simp add: processJob_def Let_def split: sum.splits option.splits)

lemma tryBlock_generate:
  assumes "extractText h (resolvePath h j) = Inr t" "20 \<le> length (trim t)"
  shows "tryBlock h cl j = generate h cl t"
proof -
  from assms(2) have "t \<noteq> []" by (auto simp: trim_def)
  with assms show ?thesis by (simp add: tryBlock_def)
qed

lemma processJob_written:
  assumes "unhandledRejections (processJob h now j q) = unhandledRejections q"
  shows "\<exists>r. statuses (processJob h now j q) (job_id j) = Some r
           \<and> (status r = Some ''done'' \<or> status r = Some ''error'')"
  using assms by (auto simp: processJob_def Let_def split: sum.splits option.splits)

lemma processJob_unhandled:
  "unhandledRejections q \<le> unhandledRejections (processJob h now j q)"
  by (simp add: processJob_def Let_def split: sum.splits option.splits)

lemma busyQueue_reachable:
  "run initial [Enqueue notesJob ''t1'', Enqueue deckJob ''t2''] = Some busyQueue"
  by (simp add: initial_def enqueue_def processNext_def existing_def emptyRecord_def
      busyQueue_def notesJob_def deckJob_def)

section \<open>The worker processes one job at a time\<close>

lemma processNext_busy: "workerRunning q \<Longrightarrow> processNext now q = q"
  by (simp add: processNext_def)

lemma processNext_flight:
  assumes "length (inFlight q) \<le> 1" "workerRunning q = (inFlight q \<noteq> [])"
  shows "length (inFlight (processNext now q)) \<le> 1
       \<and> workerRunning (processNext now q) = (inFlight (processNext now q) \<noteq> [])"
  using assms by (auto simp: processNext_def split: list.splits)

lemma processJob_flight:
  assumes "length (inFlight q) \<le> 1" "j \<in> set (inFlight q)"
  shows "inFlight (processJob h now j q) = [] \<and> \<not> workerRunning (processJob h now j q)"
proof -
  from assms have "inFlight q = [j]" by (cases "inFlight q") auto
  then show ?thesis by (simp add: processJob_def Let_def)
qed

lemma step_flight:
  assumes "length (inFlight q) \<le> 1" "workerRunning q = (inFlight q \<noteq> [])" "step q e = Some q'"
  shows "length (inFlight q') \<le> 1 \<and> workerRunning q' = (inFlight q' \<noteq> [])"
proof (cases e)
  case (Enqueue j now)
  with assms show ?thesis
    using processNext_flight [of "q\<lparr>jobs := jobs q @ [j]\<rparr>" now] by (auto simp: enqueue_def)
next
  case (TimerFires now)
  with assms show ?thesis
    using processNext_flight [of "q\<lparr>timers := timers q - 1\<rparr>" now] by (auto split: if_splits)
next
  case (Completes j h now)
  with assms show ?thesis
    using processJob_flight [of q j h now] by (auto split: if_splits)
qed

lemma run_flight:
  assumes "run q es = Some q'" "length (inFlight q) \<le> 1" "workerRunning q = (inFlight q \<noteq> [])"
  shows "length (inFlight q') \<le> 1 \<and> workerRunning q' = (inFlight q' \<noteq> [])"
  using assms
proof (induction es arbitrary: q)
  case Nil
  then show ?case by simp
next
  case (Cons e es)
  then obtain q1 where s: "step q e = Some q1" and r: "run q1 es = Some q'"
    by (auto split: option.splits)
  from step_flight [OF Cons.prems(2,3) s] Cons.IH [OF r] show ?case by blast
qed

lemma run_append:
  "run q (es @ es') = (case run q es of None \<Rightarrow> None | Some q1 \<Rightarrow> run q1 es')"
  by (induction es arbitrary: q) (auto split: option.splits)

lemma run_snoc:
  "run q (es @ [e]) = Some q' \<longleftrightarrow> (\<exists>q1. run q es = Some q1 \<and> step q1 e = Some q')"
  by (auto simp: run_append split: option.splits)

lemma submitted_append: "submitted (es @ es') = submitted es @ submitted es'"
  by (induction es rule: submitted.induct) auto

lemma completed_append: "completed (es @ es') = completed es @ completed es'"
  by (induction es rule: completed.induct) auto

lemma processNext_order:
  "inFlight (processNext now q) @ jobs (processNext now q) = inFlight q @ jobs q"
  by (auto simp: processNext_def split: list.splits)

lemma step_order:
  assumes "length (inFlight q) \<le> 1" "step q e = Some q'"
  shows "completed [e] @ inFlight q' @ jobs q' = inFlight q @ jobs q @ submitted [e]"
proof (cases e)
  case (Enqueue j now)
  with assms show ?thesis
    using processNext_order [of now "q\<lparr>jobs := jobs q @ [j]\<rparr>"] by (simp add: enqueue_def)
next
  case (TimerFires now)
  with assms show ?thesis
    using processNext_order [of now "q\<lparr>timers := timers q - 1\<rparr>"] by (auto split: if_splits)
next
  case (Completes j h now)
  with assms have "inFlight q = [j]" by (cases "inFlight q") (auto split: if_splits)
  with Completes assms show ?thesis by (auto simp: processJob_def Let_def split: if_splits)
qed

lemma run_initial_flight:
  assumes "run initial es = Some q"
  shows "length (inFlight q) \<le> 1 \<and> workerRunning q = (inFlight q \<noteq> [])"
  using run_flight [OF assms] by (simp add: initial_def)

lemma run_order:
  "run initial es = Some q \<Longrightarrow> submitted es = completed es @ inFlight q @ jobs q"
proof (induction es arbitrary: q rule: rev_induct)
  case Nil
  then show ?case by (auto simp: initial_def)
next
  case (snoc e es)
  then obtain q1 where r: "run initial es = Some q1" and s: "step q1 e = Some q"
    by (auto simp: run_snoc)
  have "length (inFlight q1) \<le> 1" using run_initial_flight [OF r] by simp
  from step_order [OF this s] snoc.IH [OF r] show ?case
    by (simp add: submitted_append completed_append)
qed

lemma processNext_processing:
  assumes "\<forall>i r. statuses q i = Some r \<longrightarrow> status r = Some ''processing''
             \<longrightarrow> i \<in> job_id ` set (inFlight q)"
  shows "\<forall>i r. statuses (processNext now q) i = Some r \<longrightarrow> status r = Some ''processing''
             \<longrightarrow> i \<in> job_id ` set (inFlight (processNext now q))"
  using assms by (auto simp: processNext_def split: list.splits)

lemma processJob_processing:
  assumes "inFlight q = [j]"
    "\<forall>i r. statuses q i = Some r \<longrightarrow> status r = Some ''processing''
             \<longrightarrow> i \<in> job_id ` set (inFlight q)"
    "unhandledRejections (processJob h now j q) = unhandledRejections q"
  shows "\<forall>i r. statuses (processJob h now j q) i = Some r \<longrightarrow> status r \<noteq> Some ''processing''"
  using assms by (auto simp: processJob_def Let_def split: sum.splits option.splits)

lemma step_unhandled:
  assumes "step q e = Some q'"
  shows "unhandledRejections q \<le> unhandledRejections q'"
proof (cases e)
  case (Enqueue j now)
  with assms show ?thesis by (auto simp: enqueue_def processNext_def split: list.splits)
next
  case (TimerFires now)
  with assms show ?thesis by (auto simp: processNext_def split: if_splits list.splits)
next
  case (Completes j h now)
  with assms processJob_unhandled [of q h now j] show ?thesis by (auto split: if_splits)
qed

lemma step_processing:
  assumes "length (inFlight q) \<le> 1"
    "\<forall>i r. statuses q i = Some r \<longrightarrow> status r = Some ''processing''
             \<longrightarrow> i \<in> job_id ` set (inFlight q)"
    "step q e = Some q'" "unhandledRejections q' = unhandledRejections q"
  shows "\<forall>i r. statuses q' i = Some r \<longrightarrow> status r = Some ''processing''
             \<longrightarrow> i \<in> job_id ` set (inFlight q')"
proof (cases e)
  case (Enqueue j now)
  with assms show ?thesis
    using processNext_processing [of "q\<lparr>jobs := jobs q @ [j]\<rparr>" now] by (simp add: enqueue_def)
next
  case (TimerFires now)
  with assms show ?thesis
    using processNext_processing [of "q\<lparr>timers := timers q - 1\<rparr>" now]
    by (simp split: if_splits)
next
  case (Completes j h now)
  with assms have f: "inFlight q = [j]" by (cases "inFlight q") (auto split: if_splits)
  from Completes assms(3) have q': "q' = processJob h now j q" by (simp split: if_splits)
  from processJob_processing [OF f assms(2)] assms(4) show ?thesis
    unfolding q' by blast
qed

lemma run_processing:
  "run initial es = Some q \<Longrightarrow> unhandledRejections q = 0 \<Longrightarrow>
   \<forall>i r. statuses q i = Some r \<longrightarrow> status r = Some ''processing''
             \<longrightarrow> i \<in> job_id ` set (inFlight q)"
proof (induction es arbitrary: q rule: rev_induct)
  case Nil
  then show ?case by (auto simp: initial_def)
next
  case (snoc e es)
  then obtain q1 where r: "run initial es = Some q1" and s: "step q1 e = Some q"
    by (auto simp: run_snoc)
  have f: "length (inFlight q1) \<le> 1" using run_initial_flight [OF r] by simp
  from step_unhandled [OF s] snoc.prems(2) have u: "unhandledRejections q1 = 0" by simp
  with snoc.prems(2) have "unhandledRejections q = unhandledRejections q1" by simp
  from step_processing [OF f snoc.IH [OF r u] s this] show ?case .
qed

lemma step_release:
  assumes "step q e = Some q'" "workerRunning q" "\<not> workerRunning q'"
  shows "\<exists>j h now. e = Completes j h now \<and> j \<in> set (inFlight q)
           \<and> (unhandledRejections q' = unhandledRejections q
                \<longrightarrow> (\<exists>r. statuses q' (job_id j) = Some r
                       \<and> (status r = Some ''done'' \<or> status r = Some ''error'')))"
proof (cases e)
  case (Enqueue j now)
  with assms show ?thesis by (auto simp: enqueue_def processNext_def split: list.splits)
next
  case (TimerFires now)
  with assms show ?thesis by (auto simp: processNext_def split: if_splits list.splits)
next
  case (Completes j h now)
  with assms processJob_written [of h now j q] show ?thesis by (auto split: if_splits)
qed

text \<open>
  What holds in every state the module can reach: at most one activation of
  \<^verbatim>\<open>processJob\<close> is in flight; \<^verbatim>\<open>workerRunning\<close> is set exactly while one is;
  \<^verbatim>\<open>processNext\<close> changes nothing while the flag is set; while a job is in
  flight no event puts another one in flight; the only event that clears the flag
  is the completion of the job in flight. As long as no activation was rejected,
  every record with status \<^verbatim>\<open>processing\<close> belongs to the job in flight, and a
  completion that is not rejected leaves status \<^verbatim>\<open>done\<close> or \<^verbatim>\<open>error\<close>.
\<close>

lemma one_activation_in_flight:
  assumes "run initial es = Some q"
  shows "length (inFlight q) \<le> 1
       \<and> workerRunning q = (inFlight q \<noteq> [])
       \<and> (unhandledRejections q = 0
             \<longrightarrow> (\<forall>i r. statuses q i = Some r \<longrightarrow> status r = Some ''processing''
                    \<longrightarrow> i \<in> job_id ` set (inFlight q)))
       \<and> (workerRunning q \<longrightarrow> (\<forall>now. processNext now q = q))
       \<and> (\<forall>e q'. step q e = Some q' \<longrightarrow> inFlight q \<noteq> []
             \<longrightarrow> inFlight q' = inFlight q \<or> inFlight q' = [])
       \<and> (\<forall>e q'. step q e = Some q' \<longrightarrow> workerRunning q \<longrightarrow> \<not> workerRunning q'
             \<longrightarrow> (\<exists>j h now. e = Completes j h now \<and> j \<in> set (inFlight q)
                    \<and> (unhandledRejections q' = unhandledRejections q
                         \<longrightarrow> (\<exists>r. statuses q' (job_id j) = Some r
                                \<and> (status r = Some ''done'' \<or> status r = Some ''error'')))))"
proof -
  have fl: "length (inFlight q) \<le> 1" and wr: "workerRunning q = (inFlight q \<noteq> [])"
    using run_initial_flight [OF assms] by simp_all
  have keep: "inFlight q' = inFlight q \<or> inFlight q' = []"
    if s: "step q e = Some q'" and ne: "inFlight q \<noteq> []" for e q'
  proof (cases e)
    case (Enqueue j now)
    with s ne wr show ?thesis by (auto simp: enqueue_def processNext_def)
  next
    case (TimerFires now)
    with s ne wr show ?thesis by (auto simp: processNext_def split: if_splits)
  next
    case (Completes j h now)
    with s fl processJob_flight [of q j h now] show ?thesis by (auto split: if_splits)
  qed
  have rel: "\<exists>j h now. e = Completes j h now \<and> j \<in> set (inFlight q)
                    \<and> (unhandledRejections q' = unhandledRejections q
                         \<longrightarrow> (\<exists>r. statuses q' (job_id j) = Some r
                                \<and> (status r = Some ''done'' \<or> status r = Some ''error'')))"
    if "step q e = Some q'" "workerRunning q" "\<not> workerRunning q'" for e q'
    using that by (rule step_release)
  have busy: "workerRunning q \<longrightarrow> (\<forall>now. processNext now q = q)"
    by (simp add: processNext_busy)
  have pr: "unhandledRejections q = 0
             \<longrightarrow> (\<forall>i r. statuses q i = Some r \<longrightarrow> status r = Some ''processing''
                    \<longrightarrow> i \<in> job_id ` set (inFlight q))"
    using run_processing [OF assms] by blast
  show ?thesis
    apply (intro conjI)
    apply (rule fl)
    apply (rule wr)
    apply (rule pr)
    apply (rule busy)
    using keep apply blast
    using rel apply blast
    done
qed

text \<open>
  Claim C1, at a completion rejected without a reason. \<open>notesJob\<close> is in flight and
  \<open>deckJob\<close> waits when the PDF parser rejects with \<^verbatim>\<open>undefined\<close>. The catch block
  raises on \<^verbatim>\<open>err.message\<close> and writes no record; the finally-block clears
  \<^verbatim>\<open>workerRunning\<close> and schedules the drain. The flag is released while the record
  of the job is still \<^verbatim>\<open>processing\<close>: the job has no terminal status, and never
  gets one.
\<close>

theorem nullish_rejection_clears_flag:
  "(case run initial [Enqueue notesJob ''t1'', Enqueue deckJob ''t2'',
                      Completes notesJob bareRejectHost ''t3''] of
      None \<Rightarrow> False
    | Some q \<Rightarrow>
        \<not> workerRunning q
      \<and> inFlight q = []
      \<and> statuses q ''a'' =
          Some \<lparr>status = Some ''processing'', startedAt = Some ''t1'', finishedAt = None,
                result = None, message = None\<rparr>
      \<and> jobs q = [deckJob]
      \<and> timers q = 1
      \<and> unhandledRejections q = 1)"
  by code_simp

section \<open>Jobs are processed in submission order\<close>

text \<open>
  What holds in every reachable state: the jobs submitted so far are, in submission
  order, the jobs whose activation completed, in the order they completed, then the
  job in flight (at most one), then the pending queue. So if the job at position b
  has been claimed, the activation of every job at an earlier position a has
  completed, and it was the a-th to complete. As long as no activation was
  rejected, no two records have status \<^verbatim>\<open>processing\<close> at once.
\<close>

lemma submission_order:
  assumes "run initial es = Some q"
  shows "submitted es = completed es @ inFlight q @ jobs q
       \<and> length (inFlight q) \<le> 1
       \<and> (\<forall>a b. a < b \<longrightarrow> b < length (completed es) + length (inFlight q)
             \<longrightarrow> a < length (completed es) \<and> completed es ! a = submitted es ! a)
       \<and> (unhandledRejections q = 0
             \<longrightarrow> (\<forall>i i' r r'. statuses q i = Some r \<longrightarrow> statuses q i' = Some r'
                    \<longrightarrow> status r = Some ''processing'' \<longrightarrow> status r' = Some ''processing''
                    \<longrightarrow> i = i'))"
proof -
  have ord: "submitted es = completed es @ inFlight q @ jobs q"
    by (rule run_order [OF assms])
  have fl: "length (inFlight q) \<le> 1"
    using run_initial_flight [OF assms] by simp
  have idx: "a < length (completed es) \<and> completed es ! a = submitted es ! a"
    if "a < b" "b < length (completed es) + length (inFlight q)" for a b
  proof -
    from that fl have "a < length (completed es)" by arith
    then show ?thesis by (simp add: ord nth_append)
  qed
  have one: "i = i'"
    if "unhandledRejections q = 0" "statuses q i = Some r" "statuses q i' = Some r'"
       "status r = Some ''processing''" "status r' = Some ''processing''" for i i' r r'
  proof -
    from run_processing [OF assms that(1)] that
    have "i \<in> job_id ` set (inFlight q)" "i' \<in> job_id ` set (inFlight q)" by blast+
    with fl show ?thesis by (cases "inFlight q") auto
  qed
  show ?thesis
    apply (intro conjI)
    apply (rule ord)
    apply (rule fl)
    using idx apply blast
    using one apply blast
    done
qed

text \<open>
  Claim C2, at a completion rejected without a reason, in a process that goes on
  after the unhandled rejection. \<open>notesJob\<close> (id \<^verbatim>\<open>a\<close>) was submitted before
  \<open>deckJob\<close> (id \<^verbatim>\<open>b\<close>). The PDF parser rejects with \<^verbatim>\<open>undefined\<close>, no record
  is written for \<^verbatim>\<open>a\<close>, the drain timer fires and \<open>deckJob\<close> is claimed: the
  record of \<^verbatim>\<open>b\<close> is \<^verbatim>\<open>processing\<close> while the record of \<^verbatim>\<open>a\<close> still is,
  and \<^verbatim>\<open>a\<close> has reached no terminal status.
\<close>

theorem nullish_rejection_two_processing:
  "(case run initial [Enqueue notesJob ''t1'', Enqueue deckJob ''t2'',
                      Completes notesJob bareRejectHost ''t3'', TimerFires ''t4''] of
      None \<Rightarrow> False
    | Some q \<Rightarrow>
        statuses q ''a'' =
          Some \<lparr>status = Some ''processing'', startedAt = Some ''t1'', finishedAt = None,
                result = None, message = None\<rparr>
      \<and> statuses q ''b'' =
          Some \<lparr>status = Some ''processing'', startedAt = Some ''t4'', finishedAt = None,
                result = None, message = None\<rparr>
      \<and> inFlight q = [deckJob]
      \<and> jobs q = [])"
  by code_simp

section \<open>Errors thrown while a job is processed\<close>

lemma tryBlock_sources:
  "(\<forall>e. extractText h (resolvePath h j) = Inl e \<longrightarrow> outcome (tryBlock h cl j) = Inl e)
 \<and> (\<forall>t e. extractText h (resolvePath h j) = Inr t \<longrightarrow> 20 \<le> length (trim t)
        \<longrightarrow> initCohere h cl = Inl e \<longrightarrow> outcome (tryBlock h cl j) = Inl e)
 \<and> (\<forall>t c e. extractText h (resolvePath h j) = Inr t \<longrightarrow> 20 \<le> length (trim t)
        \<longrightarrow> initCohere h cl = Inr c \<longrightarrow> chat h (SummaryRequest t) = Inl e
        \<longrightarrow> outcome (tryBlock h cl j) = Inl e)
 \<and> (\<forall>t c s e. extractText h (resolvePath h j) = Inr t \<longrightarrow> 20 \<le> length (trim t)
        \<longrightarrow> initCohere h cl = Inr c \<longrightarrow> chat h (SummaryRequest t) = Inr s
        \<longrightarrow> chat h (ConceptRequest t) = Inl e \<longrightarrow> outcome (tryBlock h cl j) = Inl e)"
proof -
  have g: "tryBlock h cl j = generate h cl t"
    if "extractText h (resolvePath h j) = Inr t" "20 \<le> length (trim t)" for t
    using that by (rule tryBlock_generate)
  show ?thesis
    apply (intro conjI allI impI)
    apply (simp add: tryBlock_def)
    apply (simp add: g generate_def)
    apply (simp add: g generate_def)
    apply (simp add: g generate_def)
    done
qed

lemma readFile_error:
  assumes "endsWith (toLowerCase p) ''.pdf'' \<or> endsWith (toLowerCase p) ''.pptx''
         \<or> endsWith (toLowerCase p) ''.docx''"
    "readFileSync h p = Inl e"
  shows "extractText h p = Inl e"
  using assms by (auto simp: extractText_def Let_def)

lemma messageOr_cases:
  "(\<forall>m. err = Thrown (Some m) \<longrightarrow> m \<noteq> [] \<longrightarrow> messageOr err = Some m)
 \<and> (err = Thrown None \<or> err = Thrown (Some []) \<longrightarrow> messageOr err = Some ''Processing failed'')
 \<and> (err = Nullish \<longrightarrow> messageOr err = None)"
  by (auto simp: messageOr_def)

lemma drain_after:
  assumes "jobs q = nxt # rest" "inFlight q = [j]"
  shows "\<exists>q' r. step (processJob h now j q) (TimerFires now') = Some q'
           \<and> inFlight q' = [nxt] \<and> jobs q' = rest \<and> workerRunning q'
           \<and> statuses q' (job_id nxt) = Some r \<and> status r = Some ''processing''"
  using assms by (simp add: processJob_def Let_def processNext_def)

text \<open>
  What the catch block does with a thrown value whose \<^verbatim>\<open>message\<close> can be read:
  the job's record is the existing record with status \<^verbatim>\<open>error\<close> and the
  message, or \<^verbatim>\<open>Processing failed\<close> when there is none or an empty one. After
  any completion the worker flag is released and the queue is untouched; if jobs
  are pending a drain is scheduled, and when its timer fires the head of the queue
  is claimed. A failure of the extraction (a failed file read among them), of the
  backend initialisation, of the summary call or of the graph call each ends the
  try block with the value thrown there.
\<close>

lemma readable_failure_recorded:
  assumes "outcome (tryBlock h (cohereClient q) j) = Inl err" "messageOr err = Some m"
  shows "statuses (processJob h now j q) (job_id j) =
           Some ((existing q (job_id j))\<lparr>status := Some ''error'', message := Some m\<rparr>)
       \<and> unhandledRejections (processJob h now j q) = unhandledRejections q
       \<and> \<not> workerRunning (processJob h now j q)
       \<and> jobs (processJob h now j q) = jobs q
       \<and> (jobs q \<noteq> [] \<longrightarrow> timers (processJob h now j q) = timers q + 1)
       \<and> (\<forall>nxt rest now'. jobs q = nxt # rest \<longrightarrow> inFlight q = [j]
             \<longrightarrow> (\<exists>q' r. step (processJob h now j q) (TimerFires now') = Some q'
                    \<and> inFlight q' = [nxt] \<and> jobs q' = rest \<and> workerRunning q'
                    \<and> statuses q' (job_id nxt) = Some r \<and> status r = Some ''processing''))"
proof -
  have rec: "statuses (processJob h now j q) (job_id j) =
           Some ((existing q (job_id j))\<lparr>status := Some ''error'', message := Some m\<rparr>)"
    using assms by (simp add: processJob_record)
  have fin: "unhandledRejections (processJob h now j q) = unhandledRejections q"
    "\<not> workerRunning (processJob h now j q)" "jobs (processJob h now j q) = jobs q"
    "jobs q \<noteq> [] \<longrightarrow> timers (processJob h now j q) = timers q + 1"
    using assms by (simp_all add: processJob_def Let_def)
  have nxt: "\<forall>nxt rest now'. jobs q = nxt # rest \<longrightarrow> inFlight q = [j]
             \<longrightarrow> (\<exists>q' r. step (processJob h now j q) (TimerFires now') = Some q'
                    \<and> inFlight q' = [nxt] \<and> jobs q' = rest \<and> workerRunning q'
                    \<and> statuses q' (job_id nxt) = Some r \<and> status r = Some ''processing'')"
    using drain_after by blast
  show ?thesis
    apply (intro conjI)
    apply (rule rec)
    apply (rule fin(1))
    apply (rule fin(2))
    apply (rule fin(3))
    apply (rule fin(4))
    apply (rule nxt)
    done
qed

text \<open>
  Claim C3, at a rejection without a reason. \<open>notesJob\<close> is in flight when the PDF
  parser rejects with \<^verbatim>\<open>undefined\<close>. The try block ends with that value; in the
  catch block \<^verbatim>\<open>err.message\<close> raises, so no record with status \<^verbatim>\<open>error\<close> is
  written and the record stays \<^verbatim>\<open>processing\<close> without a message; the promise of
  \<^verbatim>\<open>processJob\<close> is rejected and nothing handles it.
\<close>

theorem nullish_rejection_escapes:
  "outcome (tryBlock bareRejectHost (cohereClient busyQueue) notesJob) = Inl Nullish
   \<and> messageOr Nullish = None
   \<and> statuses (processJob bareRejectHost ''t3'' notesJob busyQueue) ''a'' =
       Some \<lparr>status = Some ''processing'', startedAt = Some ''t1'', finishedAt = None,
             result = None, message = None\<rparr>
   \<and> unhandledRejections (processJob bareRejectHost ''t3'' notesJob busyQueue) = 1"
  by code_simp

section \<open>The guard on the extracted text\<close>

text \<open>
  Claim C4. When the extraction yields a text that has fewer than 20 characters
  after trimming (the empty text of a missing extraction result included), the try
  block ends with the error about too little readable text, no call to the
  generation backend is made (neither its initialisation nor a chat request), the
  cached client is unchanged, and the job's record gets status \<^verbatim>\<open>error\<close> with
  that message.
\<close>

theorem insufficient_text:
  assumes "extractText h (resolvePath h j) = Inr t" "length (trim t) < 20"
  shows "tryBlock h (cohereClient q) j =
           \<lparr>outcome = Inl notEnoughText, client = cohereClient q, calls = []\<rparr>
       \<and> statuses (processJob h now j q) (job_id j) =
           Some ((existing q (job_id j))\<lparr>status := Some ''error'', message := Some
              ''Not enough readable text found in this file to generate a meaningful summary.''\<rparr>)
       \<and> cohereClient (processJob h now j q) = cohereClient q"
proof -
  have t: "tryBlock h (cohereClient q) j =
           \<lparr>outcome = Inl notEnoughText, client = cohereClient q, calls = []\<rparr>"
    using assms by (simp add: tryBlock_def)
  then show ?thesis
    by (simp add: processJob_record processJob_def Let_def notEnoughText_def messageOr_def)
qed

theorem insufficient_text_witness:
  "extractText (exampleHost\<lparr>pdfParse := (\<lambda>b. Inr None)\<rparr>)
      (resolvePath (exampleHost\<lparr>pdfParse := (\<lambda>b. Inr None)\<rparr>) notesJob) = Inr []
   \<and> length (trim []) < 20
   \<and> tryBlock (exampleHost\<lparr>pdfParse := (\<lambda>b. Inr None)\<rparr>) (cohereClient busyQueue) notesJob =
       \<lparr>outcome = Inl notEnoughText, client = None, calls = []\<rparr>
   \<and> statuses (processJob (exampleHost\<lparr>pdfParse := (\<lambda>b. Inr None)\<rparr>) ''t3'' notesJob busyQueue)
         ''a'' =
       Some \<lparr>status = Some ''error'', startedAt = Some ''t1'', finishedAt = None, result = None,
             message = Some
               ''Not enough readable text found in this file to generate a meaningful summary.''\<rparr>"
proof -
  have e: "extractText (exampleHost\<lparr>pdfParse := (\<lambda>b. Inr None)\<rparr>)
      (resolvePath (exampleHost\<lparr>pdfParse := (\<lambda>b. Inr None)\<rparr>) notesJob) = Inr []"
    by code_simp
  have l: "length (trim []) < 20" by (simp add: trim_def)
  from insufficient_text [OF e l, of busyQueue "''t3''"] e l show ?thesis
    by (simp add: busyQueue_def notesJob_def existing_def)
qed

section \<open>Extraction from a presentation archive\<close>

text \<open>
  Claim C5, at an archive with ten slides. \<^verbatim>\<open>sort()\<close> without a comparison
  function orders the names code unit by code unit, so \<^verbatim>\<open>slide10.xml\<close> comes
  right after \<^verbatim>\<open>slide1.xml\<close> and before \<^verbatim>\<open>slide2.xml\<close>: the text of the tenth
  slide is emitted second, as \<^verbatim>\<open>Slide 2\<close>, and the slides two to nine move one
  place down. The slide without text is left out and its number is skipped.
\<close>

theorem slide_order_lexicographic:
  \<open>slideFiles deckFiles =
     [''ppt/slides/slide1.xml'', ''ppt/slides/slide10.xml'', ''ppt/slides/slide2.xml'',
      ''ppt/slides/slide3.xml'', ''ppt/slides/slide4.xml'', ''ppt/slides/slide5.xml'',
      ''ppt/slides/slide6.xml'', ''ppt/slides/slide7.xml'', ''ppt/slides/slide8.xml'',
      ''ppt/slides/slide9.xml'']
   \<and> extractText (exampleHost\<lparr>JSZip_loadAsync := (\<lambda>b. Inr deckFiles)\<rparr>)
         (resolvePath exampleHost deckJob) =
       Inr ''Slide 1: S1\<newline>\<newline>Slide 2: S10\<newline>\<newline>Slide 3: S2\<newline>\<newline>Slide 4: S3\<newline>\<newline>Slide 6: S5\<newline>\<newline>Slide 7: S6\<newline>\<newline>Slide 8: S7\<newline>\<newline>Slide 9: S8\<newline>\<newline>Slide 10: S9\<newline>\<newline>''\<close>
  by code_simp

text \<open>
  Apart from the order, the loop does what is expected of it: over the sorted names
  of the slide entries it concatenates one line per entry with text, numbered by
  the entry's position.
\<close>

lemma slideLoop_lines:
  assumes "\<forall>n\<in>set names. \<exists>x. map_of files n = Some (Inr x)"
  shows "slideLoop files names i acc =
           Inr (acc @ concat (map (slideText files) (zip [i..<i + length names] names)))"
  using assms
proof (induction names arbitrary: i acc)
  case Nil
  then show ?case by simp
next
  case (Cons n names)
  from Cons.prems obtain x where x: "map_of files n = Some (Inr x)" by auto
  from Cons.prems have rest: "\<forall>n\<in>set names. \<exists>x. map_of files n = Some (Inr x)" by simp
  have u: "[i..<i + length (n # names)] = i # [Suc i..<Suc i + length names]"
    using upt_conv_Cons [of i "Suc (i + length names)"] by simp
  show ?case
    unfolding u using x Cons.IH [OF rest, of "Suc i"]
    by (simp add: slideText_def Let_def)
qed

lemma slideFiles_sorted:
  "sorted (slideFiles files) \<and> set (slideFiles files) = {n \<in> fst ` set files. isSlideName n}"
  by (auto simp: slideFiles_def)

section \<open>Files without a dedicated handler\<close>

text \<open>
  Claim C9. When the lower-cased path of a job ends in none of \<^verbatim>\<open>.pdf\<close>,
  \<^verbatim>\<open>.pptx\<close>, \<^verbatim>\<open>.docx\<close>, \<^verbatim>\<open>.png\<close>, \<^verbatim>\<open>.jpg\<close> and \<^verbatim>\<open>.jpeg\<close>, the
  extraction does not fail: it yields the fixed fallback text around the file's
  extension, whatever that extension is; the trimmed fallback text has at least 20
  characters, so the guard passes and the job goes on to the generation stage, whose
  first call is the initialisation of the backend.
\<close>

theorem unknown_suffix_fallback:
  assumes "\<not> endsWith (toLowerCase (resolvePath h j)) ''.pdf''"
    "\<not> endsWith (toLowerCase (resolvePath h j)) ''.pptx''"
    "\<not> endsWith (toLowerCase (resolvePath h j)) ''.docx''"
    "\<not> endsWith (toLowerCase (resolvePath h j)) ''.png''"
    "\<not> endsWith (toLowerCase (resolvePath h j)) ''.jpg''"
    "\<not> endsWith (toLowerCase (resolvePath h j)) ''.jpeg''"
  shows "extractText h (resolvePath h j) = Inr (fallbackText (path_extname h (resolvePath h j)))
       \<and> trim (fallbackText (path_extname h (resolvePath h j))) =
           ''This document is of type '' @ [CHR 0x22] @ path_extname h (resolvePath h j)
           @ [CHR 0x22] @ ''.''
           @ [CHR 0x0A] @ ''It likely contains educational or structured content.''
           @ [CHR 0x0A, CHR 0x0A]
           @ ''Generate a clear academic-style summary and key concepts based on this context.''
       \<and> 20 \<le> length (trim (fallbackText (path_extname h (resolvePath h j))))
       \<and> tryBlock h cl j = generate h cl (fallbackText (path_extname h (resolvePath h j)))
       \<and> hd (calls (tryBlock h cl j)) = InitCohere"
proof -
  let ?t = "fallbackText (path_extname h (resolvePath h j))"
  have e: "extractText h (resolvePath h j) = Inr ?t"
    using assms by (simp add: extractText_def Let_def)
  have l: "20 \<le> length (trim ?t)" by (simp add: trim_fallbackText)
  have g: "tryBlock h cl j = generate h cl ?t" using e l by (rule tryBlock_generate)
  have "hd (calls (generate h cl ?t)) = InitCohere"
    by (simp add: generate_def split: sum.splits)
  with e l g show ?thesis by (simp add: trim_fallbackText)
qed

theorem unknown_suffix_fallback_witness:
  "\<not> endsWith (toLowerCase (resolvePath exampleHost readmeJob)) ''.pdf''
   \<and> resolvePath exampleHost readmeJob = ''/srv/app/uploads/README.TXT''
   \<and> extractText exampleHost (resolvePath exampleHost readmeJob) = Inr (fallbackText ''.TXT'')
   \<and> 20 \<le> length (trim (fallbackText ''.TXT''))
   \<and> hd (calls (tryBlock exampleHost None readmeJob)) = InitCohere"
proof -
  have p: "resolvePath exampleHost readmeJob = ''/srv/app/uploads/README.TXT''" by code_simp
  have x: "path_extname exampleHost ''/srv/app/uploads/README.TXT'' = ''.TXT''" by code_simp
  have n: "\<not> endsWith (toLowerCase (resolvePath exampleHost readmeJob)) ''.pdf''"
    "\<not> endsWith (toLowerCase (resolvePath exampleHost readmeJob)) ''.pptx''"
    "\<not> endsWith (toLowerCase (resolvePath exampleHost readmeJob)) ''.docx''"
    "\<not> endsWith (toLowerCase (resolvePath exampleHost readmeJob)) ''.png''"
    "\<not> endsWith (toLowerCase (resolvePath exampleHost readmeJob)) ''.jpg''"
    "\<not> endsWith (toLowerCase (resolvePath exampleHost readmeJob)) ''.jpeg''"
    by code_simp+
  note u = unknown_suffix_fallback [OF n, of None]
  have e: "extractText exampleHost (resolvePath exampleHost readmeJob) = Inr (fallbackText ''.TXT'')"
    using u [THEN conjunct1] p x by simp
  have l: "20 \<le> length (trim (fallbackText ''.TXT''))"
    using u [THEN conjunct2, THEN conjunct2, THEN conjunct1] p x by simp
  have c: "hd (calls (tryBlock exampleHost None readmeJob)) = InitCohere"
    by (rule u [THEN conjunct2, THEN conjunct2, THEN conjunct2, THEN conjunct2])
  show ?thesis
    apply (intro conjI)
    apply (rule n(1))
    apply (rule p)
    apply (rule e)
    apply (rule l)
    apply (rule c)
    done
qed

section \<open>Parsing the concept map\<close>

lemma parseConceptMap_slice:
  assumes "CHR ''{'' \<in> set text" "CHR ''}'' \<in> set text"
  shows "\<exists>a b. a < length (trim text) \<and> b < length (trim text)
           \<and> trim text ! a = CHR ''{'' \<and> CHR ''{'' \<notin> set (take a (trim text))
           \<and> trim text ! b = CHR ''}'' \<and> CHR ''}'' \<notin> set (drop (Suc b) (trim text))
           \<and> parseConceptMap h text = JSON_parse h (drop a (take (Suc b) (trim text)))"
proof -
  have "CHR ''{'' \<in> set (trim text)" "CHR ''}'' \<in> set (trim text)"
    using assms by (simp_all add: set_trim_keeps isWhiteSpace_def)
  from indexOf_first [OF this(1)] lastIndexOf_last [OF this(2)]
  obtain a b where
    a: "indexOf (trim text) CHR ''{'' = int a" "a < length (trim text)"
       "trim text ! a = CHR ''{''" "CHR ''{'' \<notin> set (take a (trim text))" and
    b: "lastIndexOf (trim text) CHR ''}'' = int b" "b < length (trim text)"
       "trim text ! b = CHR ''}''" "CHR ''}'' \<notin> set (drop (Suc b) (trim text))"
    by blast
  have "parseConceptMap h text = JSON_parse h (drop a (take (Suc b) (trim text)))"
    using a(1,2) b(1,2) slice_nat [of a "trim text" b]
    by (simp add: parseConceptMap_def Let_def)
  with a b show ?thesis by blast
qed

lemma parseConceptMap_null:
  assumes "CHR ''{'' \<notin> set raw \<or> CHR ''}'' \<notin> set raw
         \<or> JSON_parse h (slice (trim raw) (indexOf (trim raw) CHR ''{'')
                             (lastIndexOf (trim raw) CHR ''}'' + 1)) = None"
  shows "parseConceptMap h raw = None"
proof -
  have "CHR ''{'' \<notin> set raw \<Longrightarrow> indexOf (trim raw) CHR ''{'' = - 1"
    using set_trim_subset [of raw] by (intro indexOf_absent) blast
  moreover have "CHR ''}'' \<notin> set raw \<Longrightarrow> lastIndexOf (trim raw) CHR ''}'' = - 1"
    using set_trim_subset [of raw] by (intro lastIndexOf_absent) blast
  ultimately show ?thesis using assms by (auto simp: parseConceptMap_def Let_def)
qed

text \<open>
  Claim C6. For every response that contains an opening and a closing brace, the
  concept map is what \<^verbatim>\<open>JSON.parse\<close> makes of the part of the trimmed response
  from its first opening brace to its last closing brace, both included (the part is
  empty when that closing brace comes first). For the response
  \<^verbatim>\<open>Sure! {"nodes":[{"id":"A","label":"X"}],"edges":[]} Thanks.\<close> the concept map is
  the object with the one node (id A, label X) and no edges, and a job that gets
  this response ends with that concept map in its result.
\<close>

theorem concept_map_parsed:
  \<open>(\<forall>h text. CHR ''{'' \<in> set text \<longrightarrow> CHR ''}'' \<in> set text \<longrightarrow>
      (\<exists>a b. a < length (trim text) \<and> b < length (trim text)
         \<and> trim text ! a = CHR ''{'' \<and> CHR ''{'' \<notin> set (take a (trim text))
         \<and> trim text ! b = CHR ''}'' \<and> CHR ''}'' \<notin> set (drop (Suc b) (trim text))
         \<and> parseConceptMap h text = JSON_parse h (drop a (take (Suc b) (trim text)))))
   \<and> parseConceptMap exampleHost
         ''Sure! {"nodes":[{"id":"A","label":"X"}],"edges":[]} Thanks.'' =
       Some (JObject [(''nodes'', JArray [JObject [(''id'', JString ''A''),
                                                  (''label'', JString ''X'')]]),
                      (''edges'', JArray [])])
   \<and> outcome (tryBlock exampleHost None notesJob) =
       Inr \<lparr>summary = ''Overview: energy conversion in cells.'',
            conceptMap =
              Some (JObject [(''nodes'', JArray [JObject [(''id'', JString ''A''),
                                                         (''label'', JString ''X'')]]),
                             (''edges'', JArray [])])\<rparr>\<close>
proof -
  have c1: \<open>parseConceptMap exampleHost
         ''Sure! {"nodes":[{"id":"A","label":"X"}],"edges":[]} Thanks.'' =
       Some (JObject [(''nodes'', JArray [JObject [(''id'', JString ''A''),
                                                  (''label'', JString ''X'')]]),
                      (''edges'', JArray [])])\<close>
    by code_simp
  have c2: \<open>outcome (tryBlock exampleHost None notesJob) =
       Inr \<lparr>summary = ''Overview: energy conversion in cells.'',
            conceptMap =
              Some (JObject [(''nodes'', JArray [JObject [(''id'', JString ''A''),
                                                         (''label'', JString ''X'')]]),
                             (''edges'', JArray [])])\<rparr>\<close>
    by code_simp
  show ?thesis
    apply (intro conjI allI impI)
    apply (erule (1) parseConceptMap_slice)
    apply (rule c1)
    apply (rule c2)
    done
qed

theorem concept_map_parsed_witness:
  \<open>CHR ''{'' \<in> set ''Sure! {"nodes":[{"id":"A","label":"X"}],"edges":[]} Thanks.''
   \<and> CHR ''}'' \<in> set ''Sure! {"nodes":[{"id":"A","label":"X"}],"edges":[]} Thanks.''
   \<and> drop 6 (take (Suc 50)
        (trim ''Sure! {"nodes":[{"id":"A","label":"X"}],"edges":[]} Thanks.'')) =
       ''{"nodes":[{"id":"A","label":"X"}],"edges":[]}''
   \<and> (\<exists>a b. trim ''Sure! {"nodes":[{"id":"A","label":"X"}],"edges":[]} Thanks.'' ! a = CHR ''{''
         \<and> trim ''Sure! {"nodes":[{"id":"A","label":"X"}],"edges":[]} Thanks.'' ! b = CHR ''}''
         \<and> parseConceptMap exampleHost
              ''Sure! {"nodes":[{"id":"A","label":"X"}],"edges":[]} Thanks.'' =
            JSON_parse exampleHost (drop a (take (Suc b)
              (trim ''Sure! {"nodes":[{"id":"A","label":"X"}],"edges":[]} Thanks.''))))\<close>
proof -
  have a: \<open>CHR ''{'' \<in> set ''Sure! {"nodes":[{"id":"A","label":"X"}],"edges":[]} Thanks.''\<close>
    by simp
  have b: \<open>CHR ''}'' \<in> set ''Sure! {"nodes":[{"id":"A","label":"X"}],"edges":[]} Thanks.''\<close>
    by simp
  have s: \<open>drop 6 (take (Suc 50)
        (trim ''Sure! {"nodes":[{"id":"A","label":"X"}],"edges":[]} Thanks.'')) =
       ''{"nodes":[{"id":"A","label":"X"}],"edges":[]}''\<close>
    by code_simp
  from concept_map_parsed a b
  have \<open>\<exists>a b. a < length (trim ''Sure! {"nodes":[{"id":"A","label":"X"}],"edges":[]} Thanks.'')
         \<and> b < length (trim ''Sure! {"nodes":[{"id":"A","label":"X"}],"edges":[]} Thanks.'')
         \<and> trim ''Sure! {"nodes":[{"id":"A","label":"X"}],"edges":[]} Thanks.'' ! a = CHR ''{''
         \<and> CHR ''{'' \<notin> set (take a
              (trim ''Sure! {"nodes":[{"id":"A","label":"X"}],"edges":[]} Thanks.''))
         \<and> trim ''Sure! {"nodes":[{"id":"A","label":"X"}],"edges":[]} Thanks.'' ! b = CHR ''}''
         \<and> CHR ''}'' \<notin> set (drop (Suc b)
              (trim ''Sure! {"nodes":[{"id":"A","label":"X"}],"edges":[]} Thanks.''))
         \<and> parseConceptMap exampleHost
              ''Sure! {"nodes":[{"id":"A","label":"X"}],"edges":[]} Thanks.'' =
            JSON_parse exampleHost (drop a (take (Suc b)
              (trim ''Sure! {"nodes":[{"id":"A","label":"X"}],"edges":[]} Thanks.'')))\<close>
    by blast
  then have \<open>\<exists>a b. trim ''Sure! {"nodes":[{"id":"A","label":"X"}],"edges":[]} Thanks.'' ! a = CHR ''{''
         \<and> trim ''Sure! {"nodes":[{"id":"A","label":"X"}],"edges":[]} Thanks.'' ! b = CHR ''}''
         \<and> parseConceptMap exampleHost
              ''Sure! {"nodes":[{"id":"A","label":"X"}],"edges":[]} Thanks.'' =
            JSON_parse exampleHost (drop a (take (Suc b)
              (trim ''Sure! {"nodes":[{"id":"A","label":"X"}],"edges":[]} Thanks.'')))\<close>
    by blast
  with a b s show ?thesis by blast
qed

text \<open>
  Claim C7. When both generation calls answer and the graph response has no opening
  brace, or no closing brace, or its slice does not parse, the concept map is
  \<^verbatim>\<open>null\<close>, the try block ends normally and the job's record gets status
  \<^verbatim>\<open>done\<close> with the summary and the \<^verbatim>\<open>null\<close> concept map as its result.
\<close>

theorem graph_failure_not_fatal:
  assumes "extractText h (resolvePath h j) = Inr t" "20 \<le> length (trim t)"
    "initCohere h (cohereClient q) = Inr c"
    "chat h (SummaryRequest t) = Inr s" "chat h (ConceptRequest t) = Inr raw"
    "CHR ''{'' \<notin> set raw \<or> CHR ''}'' \<notin> set raw
     \<or> JSON_parse h (slice (trim raw) (indexOf (trim raw) CHR ''{'')
                         (lastIndexOf (trim raw) CHR ''}'' + 1)) = None"
  shows "parseConceptMap h raw = None
       \<and> outcome (tryBlock h (cohereClient q) j) = Inr \<lparr>summary = s, conceptMap = None\<rparr>
       \<and> statuses (processJob h now j q) (job_id j) =
           Some ((existing q (job_id j))\<lparr>status := Some ''done'', finishedAt := Some now,
                    result := Some \<lparr>summary = s, conceptMap = None\<rparr>\<rparr>)"
proof -
  have n: "parseConceptMap h raw = None" using assms(6) by (rule parseConceptMap_null)
  have "tryBlock h (cohereClient q) j = generate h (cohereClient q) t"
    using assms(1,2) by (rule tryBlock_generate)
  then have o: "outcome (tryBlock h (cohereClient q) j) = Inr \<lparr>summary = s, conceptMap = None\<rparr>"
    using assms(3,4,5) n by (simp add: generate_def)
  show ?thesis using n o by (simp add: processJob_record)
qed

theorem graph_failure_not_fatal_witness:
  "extractText (exampleHost\<lparr>chat := (\<lambda>r. Inr ''I cannot draw a graph.'')\<rparr>)
      (resolvePath (exampleHost\<lparr>chat := (\<lambda>r. Inr ''I cannot draw a graph.'')\<rparr>) notesJob) =
     Inr ''Photosynthesis converts light energy into chemical energy.''
   \<and> CHR ''{'' \<notin> set ''I cannot draw a graph.''
   \<and> statuses (processJob (exampleHost\<lparr>chat := (\<lambda>r. Inr ''I cannot draw a graph.'')\<rparr>)
        ''t3'' notesJob busyQueue) ''a'' =
       Some \<lparr>status = Some ''done'', startedAt = Some ''t1'', finishedAt = Some ''t3'',
             result = Some \<lparr>summary = ''I cannot draw a graph.'', conceptMap = None\<rparr>,
             message = None\<rparr>"
proof -
  let ?h = "exampleHost\<lparr>chat := (\<lambda>r. Inr ''I cannot draw a graph.'')\<rparr>"
  let ?t = "''Photosynthesis converts light energy into chemical energy.''"
  have e: "extractText ?h (resolvePath ?h notesJob) = Inr ?t" by code_simp
  have l: "20 \<le> length (trim ?t)" by code_simp
  have i: "initCohere ?h (cohereClient busyQueue) = Inr ''test-key''" by code_simp
  have s: "chat ?h (SummaryRequest ?t) = Inr ''I cannot draw a graph.''" by simp
  have c: "chat ?h (ConceptRequest ?t) = Inr ''I cannot draw a graph.''" by simp
  have n: "CHR ''{'' \<notin> set ''I cannot draw a graph.''" by simp
  then have d: "CHR ''{'' \<notin> set ''I cannot draw a graph.''
     \<or> CHR ''}'' \<notin> set ''I cannot draw a graph.''
     \<or> JSON_parse ?h (slice (trim ''I cannot draw a graph.'')
            (indexOf (trim ''I cannot draw a graph.'') CHR ''{'')
            (lastIndexOf (trim ''I cannot draw a graph.'') CHR ''}'' + 1)) = None"
    by blast
  from graph_failure_not_fatal [OF e l i s c d, of "''t3''"] e n show ?thesis
    by (simp add: busyQueue_def notesJob_def existing_def)
qed

section \<open>Status records are merged\<close>

lemma processNext_shape:
  assumes k1: "\<forall>i. statuses q i \<noteq> None \<longrightarrow> i \<in> job_id ` set (dn @ inFlight q)"
    and k2: "\<forall>j\<in>set (inFlight q). \<exists>r. statuses q (job_id j) = Some r
               \<and> status r = Some ''processing'' \<and> startedAt r \<noteq> None
               \<and> result r = None \<and> message r = None"
    and k3: "\<forall>i r. statuses q i = Some r \<longrightarrow> startedAt r \<noteq> None
               \<and> (result r \<noteq> None \<longrightarrow> status r = Some ''done'')
               \<and> (message r \<noteq> None \<longrightarrow> status r = Some ''error'')"
    and wr: "workerRunning q = (inFlight q \<noteq> [])"
    and di: "distinct (map job_id (dn @ inFlight q @ jobs q))"
  shows "(\<forall>i. statuses (processNext now q) i \<noteq> None
            \<longrightarrow> i \<in> job_id ` set (dn @ inFlight (processNext now q)))
       \<and> (\<forall>j\<in>set (inFlight (processNext now q)).
            \<exists>r. statuses (processNext now q) (job_id j) = Some r
               \<and> status r = Some ''processing'' \<and> startedAt r \<noteq> None
               \<and> result r = None \<and> message r = None)
       \<and> (\<forall>i r. statuses (processNext now q) i = Some r \<longrightarrow> startedAt r \<noteq> None
               \<and> (result r \<noteq> None \<longrightarrow> status r = Some ''done'')
               \<and> (message r \<noteq> None \<longrightarrow> status r = Some ''error''))"
proof (cases "workerRunning q \<or> jobs q = []")
  case True
  then have "processNext now q = q" by (auto simp: processNext_def)
  with k1 k2 k3 show ?thesis by simp
next
  case False
  then obtain j rest where js: "jobs q = j # rest" by (cases "jobs q") auto
  from False wr have fl: "inFlight q = []" by simp
  from di js fl have "job_id j \<notin> job_id ` set dn" by auto
  with k1 fl have "statuses q (job_id j) = None" by auto
  then have ex: "existing q (job_id j) = emptyRecord" by (simp add: existing_def)
  have pn: "processNext now q =
      q\<lparr>jobs := rest, workerRunning := True,
        statuses := (statuses q)(job_id j \<mapsto>
           emptyRecord\<lparr>status := Some ''processing'', startedAt := Some now\<rparr>),
        inFlight := [j]\<rparr>"
    using False js fl ex by (simp add: processNext_def)
  show ?thesis
    unfolding pn using k1 k3 fl by (auto simp: emptyRecord_def)
qed

lemma processJob_shape:
  assumes k1: "\<forall>i. statuses q i \<noteq> None \<longrightarrow> i \<in> job_id ` set (dn @ inFlight q)"
    and k2: "\<forall>j\<in>set (inFlight q). \<exists>r. statuses q (job_id j) = Some r
               \<and> status r = Some ''processing'' \<and> startedAt r \<noteq> None
               \<and> result r = None \<and> message r = None"
    and k3: "\<forall>i r. statuses q i = Some r \<longrightarrow> startedAt r \<noteq> None
               \<and> (result r \<noteq> None \<longrightarrow> status r = Some ''done'')
               \<and> (message r \<noteq> None \<longrightarrow> status r = Some ''error'')"
    and fl: "inFlight q = [j]"
  shows "(\<forall>i. statuses (processJob h now j q) i \<noteq> None
            \<longrightarrow> i \<in> job_id ` set ((dn @ [j]) @ inFlight (processJob h now j q)))
       \<and> (\<forall>j'\<in>set (inFlight (processJob h now j q)).
            \<exists>r. statuses (processJob h now j q) (job_id j') = Some r
               \<and> status r = Some ''processing'' \<and> startedAt r \<noteq> None
               \<and> result r = None \<and> message r = None)
       \<and> (\<forall>i r. statuses (processJob h now j q) i = Some r \<longrightarrow> startedAt r \<noteq> None
               \<and> (result r \<noteq> None \<longrightarrow> status r = Some ''done'')
               \<and> (message r \<noteq> None \<longrightarrow> status r = Some ''error''))"
proof -
  from k2 fl obtain r0 where r0: "statuses q (job_id j) = Some r0"
    "status r0 = Some ''processing''" "startedAt r0 \<noteq> None" "result r0 = None" "message r0 = None"
    by auto
  then have ex: "existing q (job_id j) = r0" by (simp add: existing_def)
  show ?thesis
    using k1 k3 fl r0 ex
    by (auto simp: processJob_def Let_def split: sum.splits option.splits if_splits)
qed

lemma run_shape:
  assumes "run initial es = Some q" "distinct (map job_id (submitted es))"
  shows "(\<forall>i. statuses q i \<noteq> None \<longrightarrow> i \<in> job_id ` set (completed es @ inFlight q))
       \<and> (\<forall>j\<in>set (inFlight q). \<exists>r. statuses q (job_id j) = Some r
               \<and> status r = Some ''processing'' \<and> startedAt r \<noteq> None
               \<and> result r = None \<and> message r = None)
       \<and> (\<forall>i r. statuses q i = Some r \<longrightarrow> startedAt r \<noteq> None
               \<and> (result r \<noteq> None \<longrightarrow> status r = Some ''done'')
               \<and> (message r \<noteq> None \<longrightarrow> status r = Some ''error''))"
  using assms
proof (induction es arbitrary: q rule: rev_induct)
  case Nil
  then show ?case by (auto simp: initial_def)
next
  case (snoc e es)
  then obtain q1 where r: "run initial es = Some q1" and s: "step q1 e = Some q"
    by (auto simp: run_snoc)
  from snoc.prems(2) have d1: "distinct (map job_id (submitted es))"
    by (simp add: submitted_append)
  note ih = snoc.IH [OF r d1]
  note fl = run_initial_flight [OF r]
  note ord = run_order [OF r]
  show ?case
  proof (cases e)
    case (Enqueue j now)
    let ?q = "q1\<lparr>jobs := jobs q1 @ [j]\<rparr>"
    have di: "distinct (map job_id (completed es @ inFlight ?q @ jobs ?q))"
      using snoc.prems(2) ord Enqueue by (simp add: submitted_append)
    have q: "q = processNext now ?q" using s Enqueue by (simp add: enqueue_def)
    have c: "completed (es @ [e]) = completed es" using Enqueue by (simp add: completed_append)
    show ?thesis unfolding q c
      by (rule processNext_shape [where q = "?q", OF _ _ _ _ di]) (use ih fl in simp_all)
  next
    case (TimerFires now)
    let ?q = "q1\<lparr>timers := timers q1 - 1\<rparr>"
    have di: "distinct (map job_id (completed es @ inFlight ?q @ jobs ?q))"
      using d1 ord by simp
    have q: "q = processNext now ?q" using s TimerFires by (simp split: if_splits)
    have c: "completed (es @ [e]) = completed es" using TimerFires by (simp add: completed_append)
    show ?thesis unfolding q c
      by (rule processNext_shape [where q = "?q", OF _ _ _ _ di]) (use ih fl in simp_all)
  next
    case (Completes j h now)
    with s fl have f1: "inFlight q1 = [j]" by (cases "inFlight q1") (auto split: if_splits)
    have q: "q = processJob h now j q1" using s Completes by (simp split: if_splits)
    have c: "completed (es @ [e]) = completed es @ [j]"
      using Completes by (simp add: completed_append)
    show ?thesis unfolding q c
      by (rule processJob_shape [OF _ _ _ f1]) (use ih in simp_all)
  qed
qed

lemma processNext_merge:
  assumes "statuses q i = Some r"
  shows "\<exists>r'. statuses (processNext now q) i = Some r' \<and> finishedAt r' = finishedAt r
           \<and> result r' = result r \<and> message r' = message r"
  using assms by (auto simp: processNext_def existing_def split: list.splits)

lemma processJob_merge:
  assumes "statuses q i = Some r"
  shows "\<exists>r'. statuses (processJob h now j q) i = Some r' \<and> startedAt r' = startedAt r"
  using assms
  by (auto simp: processJob_def Let_def existing_def split: sum.splits option.splits)

lemma processNext_claim:
  assumes "\<not> workerRunning q" "jobs q = j # rest"
  shows "statuses (processNext now q) (job_id j) =
           Some ((existing q (job_id j))\<lparr>status := Some ''processing'',
                                          startedAt := Some now\<rparr>)"
  using assms by (simp add: processNext_def)

text \<open>
  Claim C8. When the ids of the submitted jobs are distinct, every record of a
  reachable state has its \<^verbatim>\<open>startedAt\<close>, has a \<^verbatim>\<open>result\<close> only with status
  \<^verbatim>\<open>done\<close> and a \<^verbatim>\<open>message\<close> only with status \<^verbatim>\<open>error\<close>. Both status
  writes merge into the record that exists, in every state of the module, whether a
  record exists for the id or not: the claim writes the existing record with
  \<^verbatim>\<open>status\<close> and \<^verbatim>\<open>startedAt\<close> set, so it keeps \<^verbatim>\<open>finishedAt\<close>,
  \<^verbatim>\<open>result\<close> and \<^verbatim>\<open>message\<close> of every record; a completion writes the
  existing record with \<^verbatim>\<open>status\<close>, \<^verbatim>\<open>finishedAt\<close> and \<^verbatim>\<open>result\<close> set, or
  with \<^verbatim>\<open>status\<close> and \<^verbatim>\<open>message\<close> set, so it keeps \<^verbatim>\<open>startedAt\<close>.
\<close>

theorem status_fields_merged:
  assumes "run initial es = Some q" "distinct (map job_id (submitted es))"
    "statuses q i = Some r"
  shows "startedAt r \<noteq> None
       \<and> (result r \<noteq> None \<longrightarrow> status r = Some ''done'')
       \<and> (message r \<noteq> None \<longrightarrow> status r = Some ''error'')
       \<and> (\<forall>q0 now j rest. \<not> workerRunning q0 \<longrightarrow> jobs q0 = j # rest
             \<longrightarrow> statuses (processNext now q0) (job_id j) =
                   Some ((existing q0 (job_id j))\<lparr>status := Some ''processing'',
                                                   startedAt := Some now\<rparr>))
       \<and> (\<forall>q0 i0 r0 now. statuses q0 i0 = Some r0
             \<longrightarrow> (\<exists>r'. statuses (processNext now q0) i0 = Some r'
                    \<and> finishedAt r' = finishedAt r0 \<and> result r' = result r0
                    \<and> message r' = message r0))
       \<and> (\<forall>q0 h now j res. outcome (tryBlock h (cohereClient q0) j) = Inr res
             \<longrightarrow> statuses (processJob h now j q0) (job_id j) =
                   Some ((existing q0 (job_id j))\<lparr>status := Some ''done'',
                            finishedAt := Some now, result := Some res\<rparr>))
       \<and> (\<forall>q0 h now j err m. outcome (tryBlock h (cohereClient q0) j) = Inl err
             \<longrightarrow> messageOr err = Some m
             \<longrightarrow> statuses (processJob h now j q0) (job_id j) =
                   Some ((existing q0 (job_id j))\<lparr>status := Some ''error'',
                                                   message := Some m\<rparr>))
       \<and> (\<forall>q0 i0 r0 h now j. statuses q0 i0 = Some r0
             \<longrightarrow> (\<exists>r'. statuses (processJob h now j q0) i0 = Some r'
                    \<and> startedAt r' = startedAt r0))"
proof -
  from run_shape [OF assms(1,2)] assms(3)
  have shape: "startedAt r \<noteq> None" "result r \<noteq> None \<longrightarrow> status r = Some ''done''"
    "message r \<noteq> None \<longrightarrow> status r = Some ''error''"
    by blast+
  have claim: "\<forall>q0 now j rest. \<not> workerRunning q0 \<longrightarrow> jobs q0 = j # rest
             \<longrightarrow> statuses (processNext now q0) (job_id j) =
                   Some ((existing q0 (job_id j))\<lparr>status := Some ''processing'',
                                                   startedAt := Some now\<rparr>)"
    using processNext_claim by blast
  have keep: "\<forall>q0 i0 r0 now. statuses q0 i0 = Some r0
             \<longrightarrow> (\<exists>r'. statuses (processNext now q0) i0 = Some r'
                    \<and> finishedAt r' = finishedAt r0 \<and> result r' = result r0
                    \<and> message r' = message r0)"
    using processNext_merge by blast
  have fin: "\<forall>q0 h now j res. outcome (tryBlock h (cohereClient q0) j) = Inr res
             \<longrightarrow> statuses (processJob h now j q0) (job_id j) =
                   Some ((existing q0 (job_id j))\<lparr>status := Some ''done'',
                            finishedAt := Some now, result := Some res\<rparr>)"
    by (simp add: processJob_record)
  have err: "\<forall>q0 h now j err m. outcome (tryBlock h (cohereClient q0) j) = Inl err
             \<longrightarrow> messageOr err = Some m
             \<longrightarrow> statuses (processJob h now j q0) (job_id j) =
                   Some ((existing q0 (job_id j))\<lparr>status := Some ''error'',
                                                   message := Some m\<rparr>)"
    by (simp add: processJob_record)
  have start: "\<forall>q0 i0 r0 h now j. statuses q0 i0 = Some r0
             \<longrightarrow> (\<exists>r'. statuses (processJob h now j q0) i0 = Some r'
                    \<and> startedAt r' = startedAt r0)"
    using processJob_merge by blast
  show ?thesis
    apply (intro conjI)
    apply (rule shape(1))
    apply (rule shape(2))
    apply (rule shape(3))
    apply (rule claim)
    apply (rule keep)
    apply (rule fin)
    apply (rule err)
    apply (rule start)
    done
qed

lemma finished_run:
  "(case run initial [Enqueue notesJob ''t1'', Enqueue deckJob ''t2'',
                      Completes notesJob exampleHost ''t3''] of
      None \<Rightarrow> False
    | Some q \<Rightarrow>
        statuses q ''a'' =
          Some \<lparr>status = Some ''done'', startedAt = Some ''t1'', finishedAt = Some ''t3'',
                result = Some \<lparr>summary = ''Overview: energy conversion in cells.'',
                   conceptMap =
                     Some (JObject [(''nodes'', JArray [JObject [(''id'', JString ''A''),
                                                                (''label'', JString ''X'')]]),
                                    (''edges'', JArray [])])\<rparr>,
                message = None\<rparr>)"
  by code_simp

text \<open>
  The state in which \<open>retryJob\<close> waits while the record of its id \<^verbatim>\<open>a\<close> holds
  the result of a finished job: the claim of \<open>retryJob\<close> finds a record to merge
  into.
\<close>

lemma finished_record_claimed:
  "existing
     \<lparr>statuses = [''a'' \<mapsto> \<lparr>status = Some ''done'', startedAt = Some ''t1'',
                             finishedAt = Some ''t3'',
                             result = Some \<lparr>summary = ''Overview.'', conceptMap = None\<rparr>,
                             message = None\<rparr>],
      jobs = [retryJob], workerRunning = False, cohereClient = Some ''test-key'',
      inFlight = [], timers = 0, unhandledRejections = 0\<rparr> (job_id retryJob) =
   \<lparr>status = Some ''done'', startedAt = Some ''t1'', finishedAt = Some ''t3'',
    result = Some \<lparr>summary = ''Overview.'', conceptMap = None\<rparr>, message = None\<rparr>"
  by (simp add: existing_def retryJob_def)

theorem status_fields_merged_witness:
  "distinct (map job_id (submitted [Enqueue notesJob ''t1'', Enqueue deckJob ''t2'',
                                    Completes notesJob exampleHost ''t3'']))
   \<and> (\<exists>q r. run initial [Enqueue notesJob ''t1'', Enqueue deckJob ''t2'',
                         Completes notesJob exampleHost ''t3''] = Some q
          \<and> statuses q ''a'' = Some r \<and> status r = Some ''done''
          \<and> startedAt r = Some ''t1'' \<and> result r \<noteq> None \<and> message r = None)
   \<and> statuses (processNext ''t4''
        \<lparr>statuses = [''a'' \<mapsto> \<lparr>status = Some ''done'', startedAt = Some ''t1'',
                                finishedAt = Some ''t3'',
                                result = Some \<lparr>summary = ''Overview.'', conceptMap = None\<rparr>,
                                message = None\<rparr>],
         jobs = [retryJob], workerRunning = False, cohereClient = Some ''test-key'',
         inFlight = [], timers = 0, unhandledRejections = 0\<rparr>) (job_id retryJob) =
       Some \<lparr>status = Some ''processing'', startedAt = Some ''t4'', finishedAt = Some ''t3'',
             result = Some \<lparr>summary = ''Overview.'', conceptMap = None\<rparr>, message = None\<rparr>"
proof -
  let ?es = "[Enqueue notesJob ''t1'', Enqueue deckJob ''t2'',
              Completes notesJob exampleHost ''t3'']"
  let ?q0 = "\<lparr>statuses = [''a'' \<mapsto> \<lparr>status = Some ''done'', startedAt = Some ''t1'',
                                finishedAt = Some ''t3'',
                                result = Some \<lparr>summary = ''Overview.'', conceptMap = None\<rparr>,
                                message = None\<rparr>],
         jobs = [retryJob], workerRunning = False, cohereClient = Some ''test-key'',
         inFlight = [], timers = 0, unhandledRejections = 0\<rparr>"
  have d: "distinct (map job_id (submitted ?es))"
    by (simp add: notesJob_def deckJob_def)
  from finished_run obtain q r where
    r: "run initial ?es = Some q" and s: "statuses q ''a'' = Some r" and
    v: "status r = Some ''done''" "startedAt r = Some ''t1'' " "result r \<noteq> None" "message r = None"
    by (auto split: option.splits)
  note m = status_fields_merged [OF r d s]
  have w: "\<not> workerRunning ?q0" and j: "jobs ?q0 = retryJob # []" by simp_all
  have "statuses (processNext ''t4'' ?q0) (job_id retryJob) =
       Some ((existing ?q0 (job_id retryJob))\<lparr>status := Some ''processing'',
                                               startedAt := Some ''t4''\<rparr>)"
    by (rule m [THEN conjunct2, THEN conjunct2, THEN conjunct2, THEN conjunct1,
                rule_format, OF w j])
  then have c: "statuses (processNext ''t4'' ?q0) (job_id retryJob) =
       Some \<lparr>status = Some ''processing'', startedAt = Some ''t4'', finishedAt = Some ''t3'',
             result = Some \<lparr>summary = ''Overview.'', conceptMap = None\<rparr>, message = None\<rparr>"
    unfolding finished_record_claimed by simp
  from r s v have e: "\<exists>q r. run initial ?es = Some q
          \<and> statuses q ''a'' = Some r \<and> status r = Some ''done''
          \<and> startedAt r = Some ''t1'' \<and> result r \<noteq> None \<and> message r = None"
    by blast
  show ?thesis
    apply (intro conjI)
    apply (rule d)
    apply (rule e)
    apply (rule c)
    done
qed

section \<open>Two jobs with one id\<close>

text \<open>
  Claim C10. Nothing keeps two jobs from carrying the same id. \<open>notesJob\<close> and
  \<open>retryJob\<close> share the id \<^verbatim>\<open>a\<close>: after the first is done, claiming the second
  sets the record of \<^verbatim>\<open>a\<close> back to \<^verbatim>\<open>processing\<close> while it still holds the
  first job's \<^verbatim>\<open>finishedAt\<close> and \<^verbatim>\<open>result\<close>. In the same way, a job that
  failed and is enqueued again is \<^verbatim>\<open>processing\<close> with the \<^verbatim>\<open>message\<close> of its
  failed run.
\<close>

theorem duplicate_id_reopens_record:
  \<open>job_id notesJob = job_id retryJob
   \<and> (case run initial [Enqueue notesJob ''t1'', Enqueue retryJob ''t2'',
                        Completes notesJob exampleHost ''t3''] of
        None \<Rightarrow> False
      | Some q \<Rightarrow>
          statuses q ''a'' =
            Some \<lparr>status = Some ''done'', startedAt = Some ''t1'', finishedAt = Some ''t3'',
                  result = Some \<lparr>summary = ''Overview: energy conversion in cells.'',
                     conceptMap =
                       Some (JObject [(''nodes'', JArray [JObject [(''id'', JString ''A''),
                                                                  (''label'', JString ''X'')]]),
                                      (''edges'', JArray [])])\<rparr>,
                  message = None\<rparr>
        \<and> jobs q = [retryJob] \<and> inFlight q = [] \<and> timers q = 1
        \<and> (case step q (TimerFires ''t4'') of
             None \<Rightarrow> False
           | Some q' \<Rightarrow>
               statuses q' ''a'' =
                 Some \<lparr>status = Some ''processing'', startedAt = Some ''t4'',
                       finishedAt = Some ''t3'',
                       result = Some \<lparr>summary = ''Overview: energy conversion in cells.'',
                          conceptMap =
                            Some (JObject [(''nodes'', JArray [JObject [(''id'', JString ''A''),
                                                                       (''label'', JString ''X'')]]),
                                           (''edges'', JArray [])])\<rparr>,
                       message = None\<rparr>
             \<and> inFlight q' = [retryJob] \<and> jobs q' = []))
   \<and> (case run initial [Enqueue readmeJob ''t1'', Completes readmeJob offlineHost ''t2''] of
        None \<Rightarrow> False
      | Some q \<Rightarrow>
          statuses q ''c'' =
            Some \<lparr>status = Some ''error'', startedAt = Some ''t1'', finishedAt = None,
                  result = None,
                  message = Some ''COHERE_API_KEY is not set in environment''\<rparr>
        \<and> (case step q (Enqueue readmeJob ''t3'') of
             None \<Rightarrow> False
           | Some q' \<Rightarrow>
               statuses q' ''c'' =
                 Some \<lparr>status = Some ''processing'', startedAt = Some ''t3'',
                       finishedAt = None, result = None,
                       message = Some ''COHERE_API_KEY is not set in environment''\<rparr>
             \<and> inFlight q' = [readmeJob]))\<close>
  by code_simp

theorem duplicate_id_reopens_record_witness:
  "\<exists>es q r. run initial es = Some q \<and> statuses q ''a'' = Some r
     \<and> status r = Some ''processing'' \<and> result r \<noteq> None"
proof -
  from duplicate_id_reopens_record obtain q q' where
    "run initial [Enqueue notesJob ''t1'', Enqueue retryJob ''t2'',
                  Completes notesJob exampleHost ''t3''] = Some q"
    "step q (TimerFires ''t4'') = Some q'"
    "\<exists>r. statuses q' ''a'' = Some r \<and> status r = Some ''processing'' \<and> result r \<noteq> None"
    by (auto split: option.splits)
  then have "run initial ([Enqueue notesJob ''t1'', Enqueue retryJob ''t2'',
                  Completes notesJob exampleHost ''t3''] @ [TimerFires ''t4'']) = Some q'"
    by (simp only: run_snoc) blast
  with \<open>\<exists>r. statuses q' ''a'' = Some r \<and> status r = Some ''processing'' \<and> result r \<noteq> None\<close>
  show ?thesis by blast
qed

end
